theory Spec2Isabelle
  imports Main "HOL-Library.Word"
begin

section \<open>JavaScript strings\<close>

text \<open>
  A JavaScript string is a sequence of 16-bit code units. Literals of the source are
  written \<open>js ''...''\<close>; every literal of the source is ASCII, and the two separators
  U+2028 and U+2029 are given by their code unit.
\<close>

type_synonym jschar = "16 word"
type_synonym jsstring = "jschar list"

definition js :: "string \<Rightarrow> jsstring" where
  "js s = map of_char s"

text \<open>
  \<open>matches_at eq s p\<close>: the literal pattern \<open>p\<close> matches at the start of \<open>s\<close>, the
  characters compared by \<open>eq\<close> (equality, or equality up to case for a regular
  expression with the flag \<open>i\<close>). \<open>occurs eq s p\<close>: it matches somewhere in \<open>s\<close>.
\<close>

fun matches_at :: "(jschar \<Rightarrow> jschar \<Rightarrow> bool) \<Rightarrow> jsstring \<Rightarrow> jsstring \<Rightarrow> bool" where
  "matches_at eq s [] = True"
| "matches_at eq [] (p # ps) = False"
| "matches_at eq (c # cs) (p # ps) = (eq c p \<and> matches_at eq cs ps)"

fun occurs :: "(jschar \<Rightarrow> jschar \<Rightarrow> bool) \<Rightarrow> jsstring \<Rightarrow> jsstring \<Rightarrow> bool" where
  "occurs eq [] p = (p = [])"
| "occurs eq (c # cs) p = (matches_at eq (c # cs) p \<or> occurs eq cs p)"



definition str_includes :: "jsstring \<Rightarrow> jsstring \<Rightarrow> bool" where
  "str_includes s p = occurs (=) s p"


section \<open>Page URL without the refresh flag\<close>


section \<open>View folders of a module\<close>

text \<open>
  A module carries \<open>__meta.name\<close> and \<open>__meta.chain\<close>, the ancestry chain from the root
  class to the module itself; each entry of the chain has a \<open>dirname\<close>.
\<close>

record chain_entry =
  entry_name :: jsstring
  dirname :: jsstring

record module_meta =
  meta_name :: jsstring
  chain :: "chain_entry list"

text \<open>
  \<open>a || b\<close> on an optional string: \<open>undefined\<close> and the empty string are falsy.
\<close>

fun truthy_str :: "jsstring option \<Rightarrow> bool" where
  "truthy_str None = False"
| "truthy_str (Some s) = (s \<noteq> [])"

text \<open>
  \<open>getViewFolders(module)\<close>. \<open>path_join\<close> stands for \<open>path.join\<close> of the platform,
  \<open>viewsFolderFallback\<close> for \<open>self.options.viewsFolderFallback\<close> and \<open>rootDir\<close> for
  \<open>self.apos.rootDir\<close>.
\<close>

definition getViewFolders ::
  "(jsstring \<Rightarrow> jsstring \<Rightarrow> jsstring) \<Rightarrow> jsstring option \<Rightarrow> jsstring \<Rightarrow> module_meta
     \<Rightarrow> jsstring list" where
  "getViewFolders path_join viewsFolderFallback rootDir meta =
     (let dirs = map (\<lambda>entry. dirname entry @ js ''/views'') (chain meta);
          dirs = rev dirs;
          fallback = (case viewsFolderFallback of
                        Some f \<Rightarrow> if truthy_str (Some f) then f
                                  else path_join rootDir (js ''views'')
                      | None \<Rightarrow> path_join rootDir (js ''views''))
      in dirs @ [fallback])"

section \<open>Regular expression replacement\<close>

text \<open>
  \<open>s.replace(/p/g, r)\<close> for a regular expression that is a literal, non-empty text
  \<open>p\<close>: the matches are found from left to right, each search resuming after the
  previous match, and every match is replaced by \<open>r\<close>. (With an empty \<open>p\<close> nothing is
  replaced here; no pattern of the source is empty.)
\<close>

function replace_all ::
  "(jschar \<Rightarrow> jschar \<Rightarrow> bool) \<Rightarrow> jsstring \<Rightarrow> jsstring \<Rightarrow> jsstring \<Rightarrow> jsstring" where
  "replace_all eq p r [] = []"
| "replace_all eq p r (c # cs) =
     (if p \<noteq> [] \<and> matches_at eq (c # cs) p
      then r @ replace_all eq p r (drop (length p) (c # cs))
      else c # replace_all eq p r cs)"
  by pat_completeness auto
termination
  by (relation "measure (\<lambda>(eq, p, r, s). length s)") (auto simp: neq_Nil_conv)

text \<open>
  Character comparison under the flag \<open>i\<close> (without the flag \<open>u\<close>) for a pattern of
  ASCII characters: both sides are upper-cased; a character outside ASCII is never
  identified with an ASCII one.
\<close>

definition ascii_upper :: "jschar \<Rightarrow> jschar" where
  "ascii_upper c = (if 0x61 \<le> c \<and> c \<le> 0x7A then c - 0x20 else c)"

definition ci_eq :: "jschar \<Rightarrow> jschar \<Rightarrow> bool" where
  "ci_eq c p = (ascii_upper c = ascii_upper p)"

definition backslash :: jschar where
  "backslash = 0x5C"

definition dquote :: jschar where
  "dquote = 0x22"

section \<open>HTML escaping\<close>

text \<open>
  Modelled from the spec: \<open>self.apos.util.escapeHtml\<close>, a helper of another module
  that is not part of the sources at hand. The spec only says that the text is
  HTML-escaped (\<open><b>\<close> becomes \<open>&lt;b&gt;\<close>); this is the usual escaping of \<open>&\<close>,
  \<open><\<close>, \<open>>\<close> and the double quote. The functions below take the escaping function as
  a parameter \<open>esc\<close>; \<open>escapeHtml\<close> is the instance used in examples.
\<close>

definition escapeHtml :: "jsstring \<Rightarrow> jsstring" where
  "escapeHtml s =
     replace_all (=) [dquote] (js ''&quot;'')
       (replace_all (=) (js ''>'') (js ''&gt;'')
         (replace_all (=) (js ''<'') (js ''&lt;'')
           (replace_all (=) (js ''&'') (js ''&amp;'') s)))"

section \<open>JavaScript values\<close>

text \<open>
  The values that templates and helpers exchange. Numbers are the integers (floating
  point is not modelled); an object is the list of its own enumerable properties in
  enumeration order.
\<close>

datatype jsval =
    JUndefined
  | JNull
  | JBool bool
  | JNum int
  | JStr jsstring
  | JArr "jsval list"
  | JObj "(jsstring \<times> jsval) list"

datatype error = TypeError

text \<open>Truthiness, as \<open>if (v)\<close>, \<open>!v\<close>, \<open>a && b\<close> and \<open>a || b\<close> read a value.\<close>

fun truthy :: "jsval \<Rightarrow> bool" where
  "truthy JUndefined = False"
| "truthy JNull = False"
| "truthy (JBool b) = b"
| "truthy (JNum n) = (n \<noteq> 0)"
| "truthy (JStr s) = (s \<noteq> [])"
| "truthy (JArr xs) = True"
| "truthy (JObj ps) = True"

text \<open>Decimal digits of a natural number, and of an integer.\<close>

fun decimal :: "nat \<Rightarrow> jsstring" where
  "decimal n =
     (if n < 10 then [of_nat (48 + n)]
      else decimal (n div 10) @ [of_nat (48 + n mod 10)])"

definition int_toString :: "int \<Rightarrow> jsstring" where
  "int_toString i = (if i < 0 then js ''-'' @ decimal (nat (- i)) else decimal (nat i))"

text \<open>\<open>xs.join(sep)\<close> on a list of strings.\<close>

fun join :: "jsstring \<Rightarrow> jsstring list \<Rightarrow> jsstring" where
  "join sep [] = []"
| "join sep [x] = x"
| "join sep (x # y # ys) = x @ sep @ join sep (y # ys)"

text \<open>
  \<open>v.toString()\<close>: a \<open>TypeError\<close> on \<open>undefined\<close> and \<open>null\<close>; an array joins its
  elements with a comma, \<open>undefined\<close> and \<open>null\<close> elements giving the empty string; a
  plain object gives \<open>[object Object]\<close>.
\<close>

fun toString :: "jsval \<Rightarrow> error + jsstring"
  and toString_elems :: "jsval list \<Rightarrow> jsstring list" where
  "toString JUndefined = Inl TypeError"
| "toString JNull = Inl TypeError"
| "toString (JBool b) = Inr (if b then js ''true'' else js ''false'')"
| "toString (JNum n) = Inr (int_toString n)"
| "toString (JStr s) = Inr s"
| "toString (JArr xs) = Inr (join (js '','') (toString_elems xs))"
| "toString (JObj ps) = Inr (js ''[object Object]'')"
| "toString_elems [] = []"
| "toString_elems (x # xs) =
     (case toString x of Inl e \<Rightarrow> [] | Inr s \<Rightarrow> s) # toString_elems xs"

section \<open>Safe strings\<close>

text \<open>
  A value handed to the template engine is either an instance of the engine's
  \<open>SafeString\<close>, which is not escaped again, or any other value.
\<close>

datatype tvalue = SafeString jsstring | Plain jsval

text \<open>\<open>safe(s)\<close>.\<close>

definition safe :: "jsstring \<Rightarrow> tvalue" where
  "safe s = SafeString s"

text \<open>\<open>escapeIfNeeded(s)\<close>, with the escaping function \<open>esc\<close>.\<close>

definition escapeIfNeeded :: "(jsstring \<Rightarrow> jsstring) \<Rightarrow> tvalue \<Rightarrow> error + tvalue" where
  "escapeIfNeeded esc s =
     (case s of
        SafeString v \<Rightarrow> Inr s
      | Plain x \<Rightarrow>
          (if x = JUndefined \<or> x = JNull then Inr (safe (esc []))
           else (case toString x of
                   Inl e \<Rightarrow> Inl e
                 | Inr t \<Rightarrow> Inr (safe (esc t)))))"

section \<open>Plain objects\<close>

text \<open>
  The own property names of \<open>Object.prototype\<close>. A plain object (\<open>{}\<close> or an object
  literal) inherits them, so a read \<open>obj[name]\<close> finds a truthy value for each of these
  names even when the object has no such key of its own.
\<close>

definition prototype_members :: "jsstring list" where
  "prototype_members =
     map js [''constructor'', ''__defineGetter__'', ''__defineSetter__'', ''hasOwnProperty'',
       ''__lookupGetter__'', ''__lookupSetter__'', ''isPrototypeOf'', ''propertyIsEnumerable'',
       ''toString'', ''valueOf'', ''__proto__'', ''toLocaleString'']"

section \<open>Insertions\<close>

text \<open>
  An insertion is \<open>{ component, conditions }\<close>. The conditions are \<open>undefined\<close> (none
  were passed), \<open>null\<close>, or an object whose \<open>when\<close> is absent, a string or an array of
  strings and whose \<open>bundler\<close> is absent or a string. \<open>insert\<close> stores the object it is
  given, not a copy, and \<open>getInjectedComponents\<close> writes to that object; so the
  conditions objects live in a store, an entry holds the address of its object, and
  two entries registered with the same object hold the same address.
\<close>

datatype when_val = WhenUndefined | WhenStr jsstring | WhenArr "jsstring list"

record conds =
  c_when :: when_val
  c_bundler :: "jsstring option"

datatype conditions = NoConditions | NullConditions | Conditions nat

record insertion =
  component :: jsstring
  conditions :: conditions

text \<open>
  The registry \<open>self.insertions\<close> together with the store of the conditions objects:
  \<open>objects st r\<close> is the object at the address \<open>r\<close>, and the addresses from
  \<open>next_object st\<close> on are not in use yet.
\<close>

record registry =
  insertions :: "jsstring \<rightharpoonup> insertion list"
  objects :: "nat \<Rightarrow> conds"
  next_object :: nat

text \<open>\<open>self.insertions = {}\<close>, before any object is made.\<close>

definition empty_registry :: registry where
  "empty_registry =
     \<lparr>insertions = Map.empty,
      objects = (\<lambda>r. \<lparr>c_when = WhenUndefined, c_bundler = None\<rparr>),
      next_object = 0\<rparr>"

text \<open>
  A new conditions object, as an object literal \<open>{ when: ..., bundler: ... }\<close> of a
  caller or the \<open>rest\<close> of a destructuring makes it: its address, and the store with
  the object in it.
\<close>

definition new_object :: "registry \<Rightarrow> conds \<Rightarrow> nat \<times> registry" where
  "new_object st c =
     (next_object st,
      st\<lparr>objects := (objects st)(next_object st := c), next_object := next_object st + 1\<rparr>)"

text \<open>
  The first argument of \<open>insert\<close> after \<open>end\<close>: either the location, followed by the
  component name and the conditions (\<open>undefined\<close>, \<open>null\<close> or the address of the
  caller's object), or one object \<open>{ component, where, ...rest }\<close>, where \<open>rest\<close> is
  \<open>None\<close> when the object has no other key.
\<close>

datatype insert_args =
    Positional jsstring jsstring conditions
  | Named jsstring jsstring "conds option"

text \<open>
  \<open>insert(end, location, componentName, conditions)\<close>. The key has a \<open>-\<close> in it, so
  \<open>self.insertions[key]\<close> never reads a member of \<open>Object.prototype\<close> here.
\<close>

fun insert_component :: "registry \<Rightarrow> jsstring \<Rightarrow> insert_args \<Rightarrow> registry" where
  "insert_component st end' (Positional location componentName conditions') =
     (let key = end' @ js ''-'' @ location;
          entries = (case insertions st key of None \<Rightarrow> [] | Some es \<Rightarrow> es)
      in st\<lparr>insertions := (insertions st)
           (key \<mapsto> entries @ [\<lparr>component = componentName, conditions = conditions'\<rparr>])\<rparr>)"
| "insert_component st end' (Named component' where' rest) =
     (let (conditions', st) =
            (case rest of
               Some c \<Rightarrow> (let (r, st) = new_object st c in (Conditions r, st))
             | None \<Rightarrow> (NullConditions, st));
          componentName = component';
          location = where';
          key = end' @ js ''-'' @ location;
          entries = (case insertions st key of None \<Rightarrow> [] | Some es \<Rightarrow> es)
      in st\<lparr>insertions := (insertions st)
           (key \<mapsto> entries @ [\<lparr>component = componentName, conditions = conditions'\<rparr>])\<rparr>)"

text \<open>
  What the asset module answers: \<open>hasHMR()\<close>, \<open>getBuildOptions().devServer\<close>,
  \<open>isDevMode()\<close>, \<open>isProductionMode()\<close>, \<open>hasBuildModule()\<close> and
  \<open>getBuildModuleAlias()\<close>.
\<close>

record asset =
  hasHMR :: bool
  devServer :: "jsstring option"
  isDevMode :: bool
  isProductionMode :: bool
  hasBuildModule :: bool
  getBuildModuleAlias :: jsstring

text \<open>The call-site data of \<open>inject\<close>: \<open>data.when\<close> is absent or a string.\<close>

record inject_data =
  d_end :: jsstring
  d_where :: jsstring
  d_when :: "jsstring option"

text \<open>\<open>s.split(sep)\<close> with a separator of one character.\<close>

fun split :: "jschar \<Rightarrow> jsstring \<Rightarrow> jsstring list" where
  "split sep [] = [[]]"
| "split sep (c # cs) =
     (if c = sep then [] # split sep cs
      else (case split sep cs of
              x # xs \<Rightarrow> (c # x) # xs
            | [] \<Rightarrow> [[c]]))"

text \<open>\<open>s.split(':')[0]\<close> and \<open>s.split(':')[1]\<close>.\<close>

definition split_fn :: "jsstring \<Rightarrow> jsstring" where
  "split_fn s = (case split 0x3A s of f # rest \<Rightarrow> f | [] \<Rightarrow> [])"

definition split_arg :: "jsstring \<Rightarrow> jsstring option" where
  "split_arg s = (case split 0x3A s of f # a # rest \<Rightarrow> Some a | _ \<Rightarrow> None)"

text \<open>
  The object that \<open>getInjectConditionHandlers()\<close> returns is a plain object with the
  three methods \<open>hmr\<close>, \<open>dev\<close> and \<open>prod\<close>; for any other name, \<open>handlers[fn]\<close> reads
  \<open>Object.prototype\<close>. What is found there is a parameter \<open>inh\<close> of the model:
  \<open>inh fn arg data\<close> is \<open>None\<close> when \<open>handlers[fn]\<close> is \<open>undefined\<close>, and otherwise
  the outcome of the call \<open>handlers[fn](arg, data)\<close>, that is the truthiness of the
  value returned, or the error raised (calling a member that is not a function raises
  a \<open>TypeError\<close>). None of these calls writes to the registry or to a conditions
  object.
\<close>

type_synonym inherited = "jsstring \<Rightarrow> jsstring option \<Rightarrow> inject_data \<Rightarrow> (error + bool) option"

text \<open>
  The members of \<open>Object.prototype\<close> as the handlers object inherits them (its own
  keys are \<open>hmr\<close>, \<open>dev\<close> and \<open>prod\<close>, and \<open>data\<close> is not a function):
  \<open>constructor\<close> returns an object, \<open>toString\<close> and \<open>toLocaleString\<close> return
  \<open>[object Object]\<close>, \<open>valueOf\<close> returns the handlers object;
  \<open>hasOwnProperty(arg)\<close> and \<open>propertyIsEnumerable(arg)\<close> tell whether \<open>arg\<close> is an own
  key; \<open>isPrototypeOf(arg)\<close> is false for a string and for \<open>undefined\<close>;
  \<open>__lookupGetter__(arg)\<close> and \<open>__lookupSetter__(arg)\<close> return a function for the
  accessor \<open>__proto__\<close> only; \<open>__defineGetter__(arg, data)\<close> and
  \<open>__defineSetter__(arg, data)\<close> raise because \<open>data\<close> is not a function; and
  \<open>__proto__\<close> is an object, not a function.
\<close>

definition object_prototype :: inherited where
  "object_prototype fn arg d =
     (if fn \<in> set (map js [''constructor'', ''toString'', ''toLocaleString'', ''valueOf''])
      then Some (Inr True)
      else if fn \<in> set (map js [''hasOwnProperty'', ''propertyIsEnumerable''])
      then Some (Inr (arg \<in> set (map Some (map js [''hmr'', ''dev'', ''prod'']))))
      else if fn = js ''isPrototypeOf'' then Some (Inr False)
      else if fn \<in> set (map js [''__lookupGetter__'', ''__lookupSetter__''])
      then Some (Inr (arg = Some (js ''__proto__'')))
      else if fn \<in> set (map js [''__defineGetter__'', ''__defineSetter__'', ''__proto__''])
      then Some (Inl TypeError)
      else None)"

text \<open>
  \<open>handlers[fn]\<close> and the call \<open>handlers[fn](arg, data)\<close>: \<open>None\<close> when \<open>handlers[fn]\<close>
  is \<open>undefined\<close>. The three own methods come first.
\<close>

definition run_handler ::
  "asset \<Rightarrow> inherited \<Rightarrow> jsstring \<Rightarrow> jsstring option \<Rightarrow> inject_data \<Rightarrow> (error + bool) option" where
  "run_handler a inh fn arg d =
     (if fn = js ''hmr'' then
        Some (Inr (if truthy_str arg then hasHMR a \<and> devServer a = arg else hasHMR a))
      else if fn = js ''dev'' then Some (Inr (isDevMode a))
      else if fn = js ''prod'' then Some (Inr (isProductionMode a))
      else inh fn arg d)"

text \<open>
  The callback of \<open>when.every\<close>: a name with no handler is reported and counts as
  false.
\<close>

definition condition_voter :: "asset \<Rightarrow> inherited \<Rightarrow> inject_data \<Rightarrow> jsstring \<Rightarrow> error + bool" where
  "condition_voter a inh d val =
     (case run_handler a inh (split_fn val) (split_arg val) d of
        None \<Rightarrow> Inr False
      | Some r \<Rightarrow> r)"

text \<open>
  \<open>when.every(callback)\<close>: it stops at the first element for which the callback
  returns a falsy value, and an error raised by the callback ends it.
\<close>

fun every_voter :: "asset \<Rightarrow> inherited \<Rightarrow> inject_data \<Rightarrow> jsstring list \<Rightarrow> error + bool" where
  "every_voter a inh d [] = Inr True"
| "every_voter a inh d (val # vals) =
     (case condition_voter a inh d val of
        Inl err \<Rightarrow> Inl err
      | Inr b \<Rightarrow> (if b then every_voter a inh d vals else Inr False))"

definition truthy_when :: "when_val \<Rightarrow> bool" where
  "truthy_when w = (case w of WhenUndefined \<Rightarrow> False | WhenStr s \<Rightarrow> s \<noteq> [] | WhenArr ws \<Rightarrow> True)"

text \<open>
  "Normalize in place": \<open>if (!Array.isArray(conditions.when)) conditions.when =
  conditions.when ? [ conditions.when ] : []\<close>.
\<close>

definition normalize_when :: "conds \<Rightarrow> conds" where
  "normalize_when c =
     (case c_when c of
        WhenArr ws \<Rightarrow> c
      | WhenStr s \<Rightarrow> c\<lparr>c_when := (if s \<noteq> [] then WhenArr [s] else WhenArr [])\<rparr>
      | WhenUndefined \<Rightarrow> c\<lparr>c_when := WhenArr []\<rparr>)"

definition when_items :: "conds \<Rightarrow> jsstring list" where
  "when_items c = (case c_when c of WhenArr ws \<Rightarrow> ws | _ \<Rightarrow> [])"

text \<open>
  The body of the \<open>forEach\<close> callback of \<open>getInjectedComponents\<close> on the conditions
  object \<open>c\<close>: whether the component is pushed, or the error raised, and the
  conditions object as the callback leaves it. \<open>conditionMet\<close> is computed before the
  bundler is compared, so an error of a handler is raised whatever the bundler is.
\<close>

definition inject_decision ::
  "asset \<Rightarrow> inherited \<Rightarrow> inject_data \<Rightarrow> conds \<Rightarrow> (error + bool) \<times> conds" where
  "inject_decision a inh d c =
     (if \<not> truthy_str (c_bundler c) \<and> \<not> truthy_when (c_when c) \<and> \<not> truthy_str (d_when d)
      then (Inr True, c)
      else
        (let c = normalize_when c in
         if truthy_str (d_when d) \<and> d_when d \<notin> set (map (\<lambda>s. Some (split_fn s)) (when_items c))
         then (Inr False, c)
         else if \<not> truthy_str (d_when d) \<and> length (when_items c) \<noteq> 0
         then (Inr False, c)
         else
           (case every_voter a inh d (when_items c) of
              Inl err \<Rightarrow> (Inl err, c)
            | Inr conditionMet \<Rightarrow>
                (let currentBundler =
                       (if hasBuildModule a then getBuildModuleAlias a else js ''webpack'')
                 in if truthy_str (c_bundler c) \<and> Some currentBundler \<noteq> c_bundler c
                    then (Inr False, c)
                    else if \<not> conditionMet then (Inr False, c)
                    else (Inr True, c)))))"

text \<open>
  The callback on one entry, in the store \<open>objs\<close>: the outcome and the store after it.
  The parameter default \<open>conditions = {}\<close> applies to \<open>undefined\<close> only: the fresh
  object is dropped after the call, and reading \<open>conditions.bundler\<close> of \<open>null\<close> raises
  a \<open>TypeError\<close>.
\<close>

definition inject_entry ::
  "asset \<Rightarrow> inherited \<Rightarrow> inject_data \<Rightarrow> (nat \<Rightarrow> conds) \<Rightarrow> insertion \<Rightarrow>
     (error + bool) \<times> (nat \<Rightarrow> conds)" where
  "inject_entry a inh d objs e =
     (case conditions e of
        NullConditions \<Rightarrow> (Inl TypeError, objs)
      | NoConditions \<Rightarrow>
          (fst (inject_decision a inh d \<lparr>c_when = WhenUndefined, c_bundler = None\<rparr>), objs)
      | Conditions r \<Rightarrow>
          (let (pushed, c') = inject_decision a inh d (objs r)
           in (pushed, objs(r := c'))))"

text \<open>
  \<open>forEach\<close> over the entries of a key: the components pushed, or the error raised,
  and the store as the loop leaves it (an error stops the loop).
\<close>

fun inject_each ::
  "asset \<Rightarrow> inherited \<Rightarrow> inject_data \<Rightarrow> (nat \<Rightarrow> conds) \<Rightarrow> insertion list \<Rightarrow>
     (error + jsstring list) \<times> (nat \<Rightarrow> conds)" where
  "inject_each a inh d objs [] = (Inr [], objs)"
| "inject_each a inh d objs (e # es) =
     (case inject_entry a inh d objs e of
        (Inl err, objs) \<Rightarrow> (Inl err, objs)
      | (Inr pushed, objs) \<Rightarrow>
          (case inject_each a inh d objs es of
             (Inl err, objs) \<Rightarrow> (Inl err, objs)
           | (Inr components, objs) \<Rightarrow>
               (Inr (if pushed then component e # components else components), objs)))"

text \<open>
  \<open>getInjectedComponents(key, data)\<close>: the result and the registry after the call.
  \<open>self.insertions\<close> is a plain object: for a key that is not registered but is the
  name of a member of \<open>Object.prototype\<close>, \<open>self.insertions[key]\<close> is that member,
  which has no \<open>forEach\<close>, and the call raises a \<open>TypeError\<close>. (The keys that \<open>inject\<close>
  and \<open>insert\<close> build have a \<open>-\<close> in them and are no such name.)
\<close>

definition getInjectedComponents ::
  "asset \<Rightarrow> inherited \<Rightarrow> registry \<Rightarrow> jsstring \<Rightarrow> inject_data \<Rightarrow>
     (error + jsstring list) \<times> registry" where
  "getInjectedComponents a inh st key d =
     (case insertions st key of
        None \<Rightarrow>
          (if key \<in> set prototype_members then (Inl TypeError, st) else (Inr [], st))
      | Some es \<Rightarrow>
          (let (result, objs) = inject_each a inh d (objects st) es
           in (result, st\<lparr>objects := objs\<rparr>)))"

section \<open>Render data\<close>

text \<open>
  The objects merged by \<open>getRenderDataArgs\<close> are read and written by key only, so
  they are maps from keys to values. \<open>obj_get m k\<close> is the read \<open>m[k]\<close>: \<open>undefined\<close>
  when the key is absent.
\<close>

type_synonym obj = "jsstring \<rightharpoonup> jsval"

definition obj_get :: "obj \<Rightarrow> jsstring \<Rightarrow> jsval" where
  "obj_get m k = (case m k of None \<Rightarrow> JUndefined | Some v \<Rightarrow> v)"

text \<open>
  \<open>_.defaults(dest, src)\<close>: every property of \<open>src\<close> is assigned to \<open>dest\<close> where the
  property of \<open>dest\<close> resolves to \<open>undefined\<close>.
\<close>

definition defaults :: "obj \<Rightarrow> obj \<Rightarrow> obj" where
  "defaults dest src =
     (\<lambda>k. case src k of
            None \<Rightarrow> dest k
          | Some v \<Rightarrow> if obj_get dest k = JUndefined then Some v else dest k)"

text \<open>
  \<open>v[k]\<close> on a value \<open>v\<close> that is not \<open>undefined\<close> or \<open>null\<close>: the property of an
  object, \<open>undefined\<close> on any other value.
\<close>

fun get_prop :: "jsval \<Rightarrow> jsstring \<Rightarrow> jsval" where
  "get_prop (JObj ps) k = (case map_of ps k of None \<Rightarrow> JUndefined | Some v \<Rightarrow> v)"
| "get_prop v k = JUndefined"

text \<open>The request: \<open>req.data\<close> (absent or an object), \<open>req.user\<close> and \<open>req.locale\<close>.\<close>

record request =
  req_data :: "obj option"
  req_user :: jsval
  req_locale :: jsval

text \<open>\<open>(req.user && req.user._permissions) || {}\<close>.\<close>

definition user_permissions :: "request \<Rightarrow> jsval" where
  "user_permissions req =
     (let p = (if truthy (req_user req) then get_prop (req_user req) (js ''_permissions'')
               else req_user req)
      in if truthy p then p else JObj [])"

text \<open>
  \<open>getRenderDataArgs(req, data, module)\<close>; \<open>data\<close> is \<open>None\<close> when the argument is
  falsy, and \<open>templateData\<close> is \<open>module.templateData\<close>, \<open>None\<close> when it is falsy.
\<close>

definition getRenderDataArgs :: "request \<Rightarrow> obj option \<Rightarrow> obj option \<Rightarrow> obj" where
  "getRenderDataArgs req data templateData =
     (let merged = Map.empty;
          merged = (case data of Some d \<Rightarrow> defaults merged d | None \<Rightarrow> merged);
          merged = (case req_data req of Some d \<Rightarrow> defaults merged d | None \<Rightarrow> merged);
          merged = defaults merged
                     [js ''user'' \<mapsto> req_user req,
                      js ''permissions'' \<mapsto> user_permissions req];
          merged = (case templateData of Some t \<Rightarrow> defaults merged t | None \<Rightarrow> merged)
      in merged(js ''locale'' \<mapsto>
           (if truthy (obj_get merged (js ''locale'')) then obj_get merged (js ''locale'')
            else req_locale req)))"

section \<open>Rendering nodes\<close>

text \<open>
  White space as \<open>trim\<close>, \<open>trimStart\<close> and \<open>trimEnd\<close> remove it: the white space and line
  terminator characters of the language.
\<close>

definition isWhiteSpace :: "jschar \<Rightarrow> bool" where
  "isWhiteSpace c =
     (c = 0x09 \<or> c = 0x0A \<or> c = 0x0B \<or> c = 0x0C \<or> c = 0x0D \<or> c = 0x20 \<or> c = 0xA0 \<or>
      c = 0x1680 \<or> (0x2000 \<le> c \<and> c \<le> 0x200A) \<or> c = 0x2028 \<or> c = 0x2029 \<or>
      c = 0x202F \<or> c = 0x205F \<or> c = 0x3000 \<or> c = 0xFEFF)"

definition trimStart :: "jsstring \<Rightarrow> jsstring" where
  "trimStart s = dropWhile isWhiteSpace s"

definition trimEnd :: "jsstring \<Rightarrow> jsstring" where
  "trimEnd s = rev (dropWhile isWhiteSpace (rev s))"

definition trim :: "jsstring \<Rightarrow> jsstring" where
  "trim s = trimEnd (trimStart s)"

text \<open>
  The value of an attribute: \<open>true\<close>, \<open>false\<close>, \<open>null\<close>, \<open>undefined\<close> or a string.
\<close>

datatype attr_val = AttrTrue | AttrFalse | AttrNull | AttrUndefined | AttrStr jsstring

text \<open>
  An element of a nodes array is \<open>null\<close> or \<open>undefined\<close> (\<open>NullNode\<close>) or an object with
  the optional strings \<open>text\<close>, \<open>comment\<close>, \<open>raw\<close> and \<open>name\<close>, the attributes
  \<open>attrs\<close> (none when absent) and the \<open>body\<close>. A body, like the argument of
  \<open>renderNodes\<close>, is a falsy value (\<open>NoNodes\<close>), a truthy value that is not an array
  (\<open>NotArray\<close>) or an array of nodes.
\<close>

datatype node =
    NullNode
  | Node "jsstring option" "jsstring option" "jsstring option" "jsstring option"
      "(jsstring \<times> attr_val) list" nodes
and nodes =
    NoNodes
  | NotArray
  | NodeArray "node list"

fun str_of :: "jsstring option \<Rightarrow> jsstring" where
  "str_of None = []"
| "str_of (Some s) = s"

fun truthy_nodes :: "nodes \<Rightarrow> bool" where
  "truthy_nodes NoNodes = False"
| "truthy_nodes NotArray = True"
| "truthy_nodes (NodeArray ns) = True"

text \<open>The callback that renders one attribute.\<close>

fun renderAttr :: "(jsstring \<Rightarrow> jsstring) \<Rightarrow> jsstring \<times> attr_val \<Rightarrow> jsstring" where
  "renderAttr esc (key, AttrFalse) = []"
| "renderAttr esc (key, AttrNull) = []"
| "renderAttr esc (key, AttrUndefined) = []"
| "renderAttr esc (key, AttrTrue) = js '' '' @ esc key"
| "renderAttr esc (key, AttrStr v) = js '' '' @ esc key @ js ''='' @ [dquote] @ esc v @ [dquote]"

text \<open>
  \<open>renderNodes(nodes)\<close>, with the escaping function \<open>esc\<close> and the table of void
  elements \<open>isVoid\<close> (the package \<open>void-elements\<close>). \<open>renderEach\<close> is \<open>nodes.map(...)\<close>
  and \<open>renderNode\<close> its callback; reading \<open>node.text\<close> of \<open>null\<close> or \<open>undefined\<close>
  raises a \<open>TypeError\<close>. An argument that is not an array and a node with none of the
  four shapes are reported with \<open>logError\<close>, which only writes to the log.
\<close>

fun renderNodes :: "(jsstring \<Rightarrow> jsstring) \<Rightarrow> (jsstring \<Rightarrow> bool) \<Rightarrow> nodes \<Rightarrow> error + jsstring"
  and renderEach ::
    "(jsstring \<Rightarrow> jsstring) \<Rightarrow> (jsstring \<Rightarrow> bool) \<Rightarrow> node list \<Rightarrow> error + jsstring list"
  and renderNode :: "(jsstring \<Rightarrow> jsstring) \<Rightarrow> (jsstring \<Rightarrow> bool) \<Rightarrow> node \<Rightarrow> error + jsstring"
  where
  "renderNodes esc isVoid NoNodes = Inr []"
| "renderNodes esc isVoid NotArray = Inr []"
| "renderNodes esc isVoid (NodeArray ns) =
     (case renderEach esc isVoid ns of
        Inl e \<Rightarrow> Inl e
      | Inr ss \<Rightarrow> Inr (trim (concat ss)))"
| "renderEach esc isVoid [] = Inr []"
| "renderEach esc isVoid (n # ns) =
     (case renderNode esc isVoid n of
        Inl e \<Rightarrow> Inl e
      | Inr s \<Rightarrow>
          (case renderEach esc isVoid ns of
             Inl e \<Rightarrow> Inl e
           | Inr ss \<Rightarrow> Inr (s # ss)))"
| "renderNode esc isVoid NullNode = Inl TypeError"
| "renderNode esc isVoid (Node text' comment' raw name attrs body) =
     (if truthy_str text' then Inr (esc (str_of text'))
      else if truthy_str comment' then
        Inr ([0x0A] @ js ''<!-- '' @ esc (str_of comment') @ js '' -->'' @ [0x0A])
      else if truthy_str raw then Inr (str_of raw)
      else if truthy_str name then
        (let name = esc (str_of name);
             attrs = trimEnd (concat (map (renderAttr esc) attrs))
         in if \<not> truthy_nodes body \<and> isVoid name
            then Inr (js ''<'' @ name @ attrs @ js '' />'')
            else
              (case (if truthy_nodes body then renderNodes esc isVoid body else Inr []) of
                 Inl e \<Rightarrow> Inl e
               | Inr body \<Rightarrow>
                   Inr (js ''<'' @ name @ attrs @ js ''>'' @ trim body @ js ''</'' @ name @
                        js ''>'')))
      else Inr [])"

text \<open>
  The table of the package \<open>void-elements\<close>, as \<open>voidElements[name]\<close> reads it: the
  table is a plain object, so the name of a member of \<open>Object.prototype\<close> finds that
  member, which is truthy.
\<close>

definition voidElements :: "jsstring \<Rightarrow> bool" where
  "voidElements name =
     (name \<in> set (map js [''area'', ''base'', ''br'', ''col'', ''embed'', ''hr'', ''img'',
        ''input'', ''link'', ''meta'', ''param'', ''source'', ''track'', ''wbr'']) \<or>
      name \<in> set prototype_members)"

text \<open>
  Arrays of node objects: no element, at any depth, is \<open>null\<close> or \<open>undefined\<close>.
\<close>

fun all_objects :: "nodes \<Rightarrow> bool"
  and all_objects_list :: "node list \<Rightarrow> bool"
  and is_object :: "node \<Rightarrow> bool" where
  "all_objects NoNodes = True"
| "all_objects NotArray = True"
| "all_objects (NodeArray ns) = all_objects_list ns"
| "all_objects_list [] = True"
| "all_objects_list (n # ns) = (is_object n \<and> all_objects_list ns)"
| "is_object NullNode = False"
| "is_object (Node text' comment' raw name attrs body) = all_objects body"

section \<open>JSON text\<close>

text \<open>
  \<open>JSON.stringify\<close> of the language on the values above. A string is quoted: the
  double quote, the backslash and the control characters are escaped, a surrogate that
  is not part of a pair is written \<open>\uXXXX\<close>, every other character stands for itself.
\<close>

definition hexdigit :: "nat \<Rightarrow> jschar" where
  "hexdigit n = (if n < 10 then of_nat (48 + n) else of_nat (87 + n))"

definition hex4 :: "jschar \<Rightarrow> jsstring" where
  "hex4 c =
     [hexdigit (unat c div 4096), hexdigit (unat c div 256 mod 16),
      hexdigit (unat c div 16 mod 16), hexdigit (unat c mod 16)]"

definition isHighSurrogate :: "jschar \<Rightarrow> bool" where
  "isHighSurrogate c = (0xD800 \<le> c \<and> c \<le> 0xDBFF)"

definition isLowSurrogate :: "jschar \<Rightarrow> bool" where
  "isLowSurrogate c = (0xDC00 \<le> c \<and> c \<le> 0xDFFF)"

definition quoteUnit :: "jschar \<Rightarrow> jsstring" where
  "quoteUnit c =
     (if c = 0x08 then [backslash, 0x62]
      else if c = 0x09 then [backslash, 0x74]
      else if c = 0x0A then [backslash, 0x6E]
      else if c = 0x0C then [backslash, 0x66]
      else if c = 0x0D then [backslash, 0x72]
      else if c = dquote then [backslash, dquote]
      else if c = backslash then [backslash, backslash]
      else if c < 0x20 \<or> isHighSurrogate c \<or> isLowSurrogate c
        then backslash # 0x75 # hex4 c
      else [c])"

fun quoteChars :: "jsstring \<Rightarrow> jsstring" where
  "quoteChars [] = []"
| "quoteChars [c] = quoteUnit c"
| "quoteChars (c # d # cs) =
     (if isHighSurrogate c \<and> isLowSurrogate d then c # d # quoteChars cs
      else quoteUnit c @ quoteChars (d # cs))"

definition QuoteJSONString :: "jsstring \<Rightarrow> jsstring" where
  "QuoteJSONString s = dquote # quoteChars s @ [dquote]"

text \<open>
  \<open>JSON.stringify(v)\<close> with no indentation: \<open>None\<close> when the result is \<open>undefined\<close>.
  In an array \<open>undefined\<close> is written \<open>null\<close>; in an object a property whose value is
  \<open>undefined\<close> is left out.
\<close>

fun JSON_stringify :: "jsval \<Rightarrow> jsstring option"
  and JSON_elements :: "jsval list \<Rightarrow> jsstring list"
  and JSON_properties :: "(jsstring \<times> jsval) list \<Rightarrow> jsstring list" where
  "JSON_stringify JUndefined = None"
| "JSON_stringify JNull = Some (js ''null'')"
| "JSON_stringify (JBool b) = Some (if b then js ''true'' else js ''false'')"
| "JSON_stringify (JNum n) = Some (int_toString n)"
| "JSON_stringify (JStr s) = Some (QuoteJSONString s)"
| "JSON_stringify (JArr xs) = Some (js ''['' @ join (js '','') (JSON_elements xs) @ js '']'')"
| "JSON_stringify (JObj ps) = Some (js ''{'' @ join (js '','') (JSON_properties ps) @ js ''}'')"
| "JSON_elements [] = []"
| "JSON_elements (x # xs) =
     (case JSON_stringify x of None \<Rightarrow> js ''null'' | Some s \<Rightarrow> s) # JSON_elements xs"
| "JSON_properties [] = []"
| "JSON_properties ((k, v) # ps) =
     (case JSON_stringify v of
        None \<Rightarrow> JSON_properties ps
      | Some s \<Rightarrow> (QuoteJSONString k @ js '':'' @ s) # JSON_properties ps)"

text \<open>
  \<open>jsonForHtml(data)\<close>. \<open>data.replace\<close> on \<open>undefined\<close>, which \<open>JSON.stringify\<close>
  returns for a value that has no JSON text, raises a \<open>TypeError\<close>.
\<close>

definition jsonForHtml :: "jsval \<Rightarrow> error + jsstring" where
  "jsonForHtml data =
     (if data = JUndefined then Inr (js ''null'')
      else
        (case JSON_stringify data of
           None \<Rightarrow> Inl TypeError
         | Some data \<Rightarrow>
             (let data = replace_all (=) (js ''<!--'') (js ''<'' @ backslash # js ''!--'') data;
                  data = replace_all ci_eq (js ''</script>'')
                           (js ''<'' @ backslash # js ''/script>'') data;
                  data = replace_all (=) [0x2028] (backslash # js ''u2028'') data;
                  data = replace_all (=) [0x2029] (backslash # js ''u2029'') data
              in Inr data)))"

text \<open>
  Two predicates on a replacement text \<open>r\<close> and a pattern \<open>q\<close>, used to state that the
  replacement can take no part in a match of the pattern. \<open>agree eq x q\<close>: \<open>x\<close> and \<open>q\<close>
  match up to the end of the shorter one. \<open>never_agrees\<close>: no non-empty end of \<open>r\<close>
  agrees with \<open>q\<close>. \<open>never_agreed\<close>: \<open>r\<close> agrees with no non-empty end of \<open>q\<close>.
\<close>

fun agree :: "(jschar \<Rightarrow> jschar \<Rightarrow> bool) \<Rightarrow> jsstring \<Rightarrow> jsstring \<Rightarrow> bool" where
  "agree eq [] q = True"
| "agree eq (c # cs) [] = True"
| "agree eq (c # cs) (p # ps) = (eq c p \<and> agree eq cs ps)"

fun never_agrees :: "(jschar \<Rightarrow> jschar \<Rightarrow> bool) \<Rightarrow> jsstring \<Rightarrow> jsstring \<Rightarrow> bool" where
  "never_agrees eq [] q = True"
| "never_agrees eq (c # cs) q = (\<not> agree eq (c # cs) q \<and> never_agrees eq cs q)"

fun never_agreed :: "(jschar \<Rightarrow> jschar \<Rightarrow> bool) \<Rightarrow> jsstring \<Rightarrow> jsstring \<Rightarrow> bool" where
  "never_agreed eq r [] = True"
| "never_agreed eq r (p # ps) = (\<not> agree eq r (p # ps) \<and> never_agreed eq r ps)"

section \<open>Loader and environment caches\<close>















section \<open>Theorems\<close>

subsection \<open>Page URL without the refresh flag\<close>


subsection \<open>View folders\<close>

text \<open>
  C1. For a module with ancestry chain \<open>[A (root), ..., Z (most derived)]\<close> the view
  folders are \<open>[Z/views, ..., A/views, fallback]\<close>: there is one folder per chain entry
  and one more, the folder at position \<open>i\<close> is the \<open>views\<close> folder of the entry at
  position \<open>i\<close> counted from the most derived end of the chain, and the last folder is
  the project-wide fallback, \<open>options.viewsFolderFallback\<close> when it is set (truthy) and
  \<open>path.join(rootDir, 'views')\<close> otherwise.
\<close>

theorem getViewFolders_order:
  "getViewFolders path_join fb rootDir m =
     rev (map (\<lambda>e. dirname e @ js ''/views'') (chain m)) @
       [case fb of Some f \<Rightarrow> if f \<noteq> [] then f else path_join rootDir (js ''views'')
        | None \<Rightarrow> path_join rootDir (js ''views'')] \<and>
   length (getViewFolders path_join fb rootDir m) = length (chain m) + 1 \<and>
   (\<forall>i < length (chain m).
      getViewFolders path_join fb rootDir m ! i =
        dirname (chain m ! (length (chain m) - 1 - i)) @ js ''/views'') \<and>
   last (getViewFolders path_join fb rootDir m) =
     (case fb of Some f \<Rightarrow> if f \<noteq> [] then f else path_join rootDir (js ''views'')
      | None \<Rightarrow> path_join rootDir (js ''views''))"
proof -
  let ?dirs = "rev (map (\<lambda>e. dirname e @ js ''/views'') (chain m))"
  let ?fallback = "case fb of Some f \<Rightarrow> if f \<noteq> [] then f else path_join rootDir (js ''views'')
        | None \<Rightarrow> path_join rootDir (js ''views'')"
  have eq: "getViewFolders path_join fb rootDir m = ?dirs @ [?fallback]"
    by (cases fb) (simp_all add: getViewFolders_def Let_def)
  have idx: "(?dirs @ [?fallback]) ! i = dirname (chain m ! (length (chain m) - 1 - i)) @ js ''/views''"
    if "i < length (chain m)" for i
    using that by (simp add: nth_append rev_nth)
  show ?thesis
    unfolding eq using idx by simp
qed

theorem getViewFolders_order_witness:
  "getViewFolders (\<lambda>a b. a @ js ''/'' @ b) None (js ''/app'')
     \<lparr>meta_name = js ''z'',
      chain = [\<lparr>entry_name = js ''a'', dirname = js ''/m/a''\<rparr>,
               \<lparr>entry_name = js ''z'', dirname = js ''/m/z''\<rparr>]\<rparr> ! 0 = js ''/m/z/views'' \<and>
   getViewFolders (\<lambda>a b. a @ js ''/'' @ b) None (js ''/app'')
     \<lparr>meta_name = js ''z'',
      chain = [\<lparr>entry_name = js ''a'', dirname = js ''/m/a''\<rparr>,
               \<lparr>entry_name = js ''z'', dirname = js ''/m/z''\<rparr>]\<rparr> ! 1 = js ''/m/a/views'' \<and>
   last (getViewFolders (\<lambda>a b. a @ js ''/'' @ b) None (js ''/app'')
     \<lparr>meta_name = js ''z'',
      chain = [\<lparr>entry_name = js ''a'', dirname = js ''/m/a''\<rparr>,
               \<lparr>entry_name = js ''z'', dirname = js ''/m/z''\<rparr>]\<rparr>) = js ''/app/views''"
  using getViewFolders_order [of "\<lambda>a b. a @ js ''/'' @ b" None "js ''/app''"
     "\<lparr>meta_name = js ''z'',
      chain = [\<lparr>entry_name = js ''a'', dirname = js ''/m/a''\<rparr>,
               \<lparr>entry_name = js ''z'', dirname = js ''/m/z''\<rparr>]\<rparr>"]
  by (simp add: js_def)

subsection \<open>Safe strings\<close>

text \<open>
  C9. \<open>escapeIfNeeded\<close> is idempotent on safe values: a safe-marked string is
  returned as it is, so applying \<open>escapeIfNeeded\<close> to a result of \<open>escapeIfNeeded\<close>
  returns that result again (no double escaping). It never raises and always returns a
  safe string. On \<open>undefined\<close> and \<open>null\<close> it returns the safe string of the escaped
  empty text, which is the safe empty string whenever escaping leaves the empty text
  empty; every other value that is not safe is converted with \<open>toString\<close> and escaped.
\<close>

theorem escapeIfNeeded_idempotent:
  "escapeIfNeeded esc (SafeString s) = Inr (SafeString s) \<and>
   (\<forall>v r. escapeIfNeeded esc v = Inr r \<longrightarrow> escapeIfNeeded esc r = Inr r) \<and>
   (\<forall>v. \<exists>t. escapeIfNeeded esc v = Inr (SafeString t)) \<and>
   (esc [] = [] \<longrightarrow>
      escapeIfNeeded esc (Plain JUndefined) = Inr (SafeString []) \<and>
      escapeIfNeeded esc (Plain JNull) = Inr (SafeString [])) \<and>
   (\<forall>x. x \<noteq> JUndefined \<and> x \<noteq> JNull \<longrightarrow>
      (\<exists>t. toString x = Inr t \<and> escapeIfNeeded esc (Plain x) = Inr (SafeString (esc t))))"
proof -
  have total: "\<exists>t. toString x = Inr t" if "x \<noteq> JUndefined" "x \<noteq> JNull" for x
    using that by (cases x) simp_all
  have safe_result: "\<exists>t. escapeIfNeeded esc v = Inr (SafeString t)" for v
  proof (cases v)
    case (SafeString s')
    then show ?thesis by (simp add: escapeIfNeeded_def)
  next
    case (Plain x)
    show ?thesis
    proof (cases "x = JUndefined \<or> x = JNull")
      case True
      with Plain show ?thesis by (auto simp: escapeIfNeeded_def safe_def)
    next
      case False
      then obtain t where "toString x = Inr t" using total [of x] by blast
      with Plain False show ?thesis by (simp add: escapeIfNeeded_def safe_def)
    qed
  qed
  have idem: "escapeIfNeeded esc r = Inr r" if "escapeIfNeeded esc v = Inr r" for v r
  proof -
    obtain t where "escapeIfNeeded esc v = Inr (SafeString t)" using safe_result by blast
    with that have "r = SafeString t" by simp
    then show ?thesis by (simp add: escapeIfNeeded_def)
  qed
  have other: "\<exists>t. toString x = Inr t \<and> escapeIfNeeded esc (Plain x) = Inr (SafeString (esc t))"
    if h: "x \<noteq> JUndefined \<and> x \<noteq> JNull" for x
  proof -
    obtain t where "toString x = Inr t" using total [of x] h by blast
    with h show ?thesis by (simp add: escapeIfNeeded_def safe_def)
  qed
  show ?thesis
    using safe_result idem other by (simp add: escapeIfNeeded_def safe_def)
qed

theorem escapeIfNeeded_idempotent_witness:
  "escapeHtml [] = [] \<and>
   escapeIfNeeded escapeHtml (Plain JUndefined) = Inr (SafeString []) \<and>
   escapeIfNeeded escapeHtml (Plain JNull) = Inr (SafeString []) \<and>
   escapeIfNeeded escapeHtml (Plain (JStr (js ''<b>''))) = Inr (SafeString (js ''&lt;b&gt;'')) \<and>
   escapeIfNeeded escapeHtml (SafeString (js ''&lt;b&gt;'')) = Inr (SafeString (js ''&lt;b&gt;''))"
proof -
  have e: "escapeHtml [] = []" by (simp add: escapeHtml_def)
  have b: "escapeHtml (js ''<b>'') = js ''&lt;b&gt;''"
    by (simp add: escapeHtml_def js_def dquote_def)
  note th = escapeIfNeeded_idempotent [of escapeHtml "js ''&lt;b&gt;''"]
  from th have safe_id: "escapeIfNeeded escapeHtml (SafeString (js ''&lt;b&gt;'')) = Inr (SafeString (js ''&lt;b&gt;''))"
    by (rule conjunct1)
  from th e have nullish: "escapeIfNeeded escapeHtml (Plain JUndefined) = Inr (SafeString []) \<and>
      escapeIfNeeded escapeHtml (Plain JNull) = Inr (SafeString [])"
    by blast
  from th have "JStr (js ''<b>'') \<noteq> JUndefined \<and> JStr (js ''<b>'') \<noteq> JNull \<longrightarrow>
      (\<exists>t. toString (JStr (js ''<b>'')) = Inr t \<and>
         escapeIfNeeded escapeHtml (Plain (JStr (js ''<b>''))) = Inr (SafeString (escapeHtml t)))"
    by blast
  then have str: "escapeIfNeeded escapeHtml (Plain (JStr (js ''<b>''))) = Inr (SafeString (js ''&lt;b&gt;''))"
    using b by simp
  from e safe_id nullish str show ?thesis by blast
qed

subsection \<open>Insertions\<close>

lemma fst_inject_each_Nil: "fst (inject_each a inh d objs []) = Inr []"
  by simp

lemma fst_inject_each_Cons:
  "fst (inject_each a inh d objs (e # es)) =
     (case fst (inject_entry a inh d objs e) of
        Inl err \<Rightarrow> Inl err
      | Inr pushed \<Rightarrow>
          (case fst (inject_each a inh d (snd (inject_entry a inh d objs e)) es) of
             Inl err \<Rightarrow> Inl err
           | Inr components \<Rightarrow> Inr (if pushed then component e # components else components)))"
  by (simp split: prod.splits sum.splits)

lemma snd_inject_each_Cons:
  "snd (inject_each a inh d objs (e # es)) =
     (case fst (inject_entry a inh d objs e) of
        Inl err \<Rightarrow> snd (inject_entry a inh d objs e)
      | Inr pushed \<Rightarrow> snd (inject_each a inh d (snd (inject_entry a inh d objs e)) es))"
  by (simp split: prod.splits sum.splits)

lemma normalize_when_idem: "normalize_when (normalize_when c) = normalize_when c"
  by (cases "c_when c") (simp_all add: normalize_when_def)

lemma c_bundler_normalize_when: "c_bundler (normalize_when c) = c_bundler c"
  by (cases "c_when c") (simp_all add: normalize_when_def)

lemma truthy_normalize_when: "truthy_when (c_when (normalize_when c))"
  by (cases "c_when c") (simp_all add: normalize_when_def truthy_when_def)

lemma when_items_falsy: "\<not> truthy_when (c_when c) \<Longrightarrow> when_items (normalize_when c) = []"
  by (cases "c_when c") (simp_all add: normalize_when_def when_items_def truthy_when_def)


lemma normalized_decision:
  "fst (inject_decision a inh d (normalize_when c)) = fst (inject_decision a inh d c)"
proof (cases "\<not> truthy_str (c_bundler c) \<and> \<not> truthy_when (c_when c) \<and> \<not> truthy_str (d_when d)")
  case True
  then have 1: "fst (inject_decision a inh d c) = Inr True"
    by (simp add: inject_decision_def)
  from True have "when_items (normalize_when c) = []" by (simp add: when_items_falsy)
  with True have 2: "fst (inject_decision a inh d (normalize_when c)) = Inr True"
    by (simp add: inject_decision_def Let_def normalize_when_idem c_bundler_normalize_when)
  from 1 2 show ?thesis by simp
next
  case False
  have nb: "\<not> (\<not> truthy_str (c_bundler (normalize_when c)) \<and>
      \<not> truthy_when (c_when (normalize_when c)) \<and> \<not> truthy_str (d_when d))"
    by (simp add: truthy_normalize_when)
  show ?thesis
    unfolding inject_decision_def if_not_P [OF False] if_not_P [OF nb] normalize_when_idem ..
qed

lemma snd_inject_decision:
  "snd (inject_decision a inh d c) = c \<or> snd (inject_decision a inh d c) = normalize_when c"
  by (simp add: inject_decision_def Let_def split: sum.splits)

lemma normalize_snd_inject_decision:
  "normalize_when (snd (inject_decision a inh d c)) = normalize_when c"
  using snd_inject_decision [of a inh d c] normalize_when_idem [of c] by auto

lemma decision_cong:
  assumes "normalize_when c = normalize_when c'"
  shows "fst (inject_decision a inh d c) = fst (inject_decision a inh d c')"
  using normalized_decision [of a inh d c] normalized_decision [of a inh d c'] assms by simp

lemma fst_inject_entry:
  "fst (inject_entry a inh d objs e) =
     (case conditions e of
        NullConditions \<Rightarrow> Inl TypeError
      | NoConditions \<Rightarrow> fst (inject_decision a inh d \<lparr>c_when = WhenUndefined, c_bundler = None\<rparr>)
      | Conditions r \<Rightarrow> fst (inject_decision a inh d (objs r)))"
  by (simp add: inject_entry_def split: conditions.splits prod.splits)

lemma snd_inject_entry:
  "snd (inject_entry a inh d objs e) =
     (case conditions e of
        NullConditions \<Rightarrow> objs
      | NoConditions \<Rightarrow> objs
      | Conditions r \<Rightarrow> objs(r := snd (inject_decision a inh d (objs r))))"
  by (simp add: inject_entry_def split: conditions.splits prod.splits)

lemma inject_entry_cong:
  assumes "\<forall>r. normalize_when (objs r) = normalize_when (objs' r)"
  shows "fst (inject_entry a inh d objs e) = fst (inject_entry a inh d objs' e)"
proof (cases "conditions e")
  case (Conditions r)
  from assms have "normalize_when (objs r) = normalize_when (objs' r)" by simp
  from decision_cong [OF this, of a inh d] Conditions show ?thesis
    by (simp add: fst_inject_entry)
qed (simp_all add: fst_inject_entry)

lemma inject_entry_norm:
  "normalize_when (snd (inject_entry a inh d objs e) r) = normalize_when (objs r)"
  by (simp add: snd_inject_entry normalize_snd_inject_decision split: conditions.splits)

lemma inject_entry_frame:
  "conditions e \<noteq> Conditions r \<Longrightarrow> snd (inject_entry a inh d objs e) r = objs r"
  by (simp add: snd_inject_entry split: conditions.splits)

lemma inject_entry_step:
  "snd (inject_entry a inh d objs e) r = objs r \<or>
   snd (inject_entry a inh d objs e) r = normalize_when (objs r)"
  using snd_inject_decision [of a inh d "objs r"]
  by (simp add: snd_inject_entry split: conditions.splits)

lemma inject_each_norm:
  "normalize_when (snd (inject_each a inh d objs es) r) = normalize_when (objs r)"
proof (induction es arbitrary: objs)
  case Nil
  then show ?case by simp
next
  case (Cons e es)
  show ?case
    using Cons.IH [of "snd (inject_entry a inh d objs e)"] inject_entry_norm [of a inh d objs e r]
    by (simp add: snd_inject_each_Cons del: inject_each.simps split: sum.splits)
qed

lemma inject_each_frame:
  "\<forall>e\<in>set es. conditions e \<noteq> Conditions r \<Longrightarrow> snd (inject_each a inh d objs es) r = objs r"
proof (induction es arbitrary: objs)
  case Nil
  then show ?case by simp
next
  case (Cons e es)
  from Cons.prems have e: "conditions e \<noteq> Conditions r"
    and es: "\<forall>e\<in>set es. conditions e \<noteq> Conditions r" by simp_all
  show ?case
    using Cons.IH [OF es, of "snd (inject_entry a inh d objs e)"]
      inject_entry_frame [OF e, of a inh d objs]
    by (simp add: snd_inject_each_Cons del: inject_each.simps split: sum.splits)
qed

lemma inject_each_step:
  "snd (inject_each a inh d objs es) r = objs r \<or>
   snd (inject_each a inh d objs es) r = normalize_when (objs r)"
proof (induction es arbitrary: objs)
  case Nil
  then show ?case by simp
next
  case (Cons e es)
  let ?o = "snd (inject_entry a inh d objs e)"
  from inject_entry_step [of a inh d objs e r]
  have 1: "?o r = objs r \<or> ?o r = normalize_when (objs r)" .
  from Cons.IH [of ?o]
  have 2: "snd (inject_each a inh d ?o es) r = ?o r \<or>
      snd (inject_each a inh d ?o es) r = normalize_when (?o r)" .
  have 3: "snd (inject_each a inh d ?o es) r = objs r \<or>
      snd (inject_each a inh d ?o es) r = normalize_when (objs r)"
    using 1 2 normalize_when_idem [of "objs r"] by auto
  show ?case
    using 1 3
    by (simp add: snd_inject_each_Cons del: inject_each.simps split: sum.splits)
qed

lemma inject_each_cong:
  "\<forall>r. normalize_when (objs r) = normalize_when (objs' r) \<Longrightarrow>
   fst (inject_each a inh d objs es) = fst (inject_each a inh d objs' es)"
proof (induction es arbitrary: objs objs')
  case Nil
  then show ?case by simp
next
  case (Cons e es)
  have h: "fst (inject_entry a inh d objs e) = fst (inject_entry a inh d objs' e)"
    by (rule inject_entry_cong [OF Cons.prems])
  have "\<forall>r. normalize_when (snd (inject_entry a inh d objs e) r) =
      normalize_when (snd (inject_entry a inh d objs' e) r)"
    using Cons.prems by (simp add: inject_entry_norm)
  from Cons.IH [OF this]
  have t: "fst (inject_each a inh d (snd (inject_entry a inh d objs e)) es) =
      fst (inject_each a inh d (snd (inject_entry a inh d objs' e)) es)" .
  show ?case
    unfolding fst_inject_each_Cons h t ..
qed

lemma inject_each_filter:
  "fst (inject_each a inh d objs es) = Inr comps \<Longrightarrow>
   comps = map component (filter (\<lambda>e. fst (inject_entry a inh d objs e) = Inr True) es)"
proof (induction es arbitrary: objs comps)
  case Nil
  then show ?case by simp
next
  case (Cons x es)
  let ?o = "snd (inject_entry a inh d objs x)"
  from Cons.prems obtain p cs where
    x: "fst (inject_entry a inh d objs x) = Inr p" and cs: "fst (inject_each a inh d ?o es) = Inr cs"
    and comps: "comps = (if p then component x # cs else cs)"
    by (auto simp: fst_inject_each_Cons simp del: inject_each.simps split: sum.splits)
  have "fst (inject_entry a inh d ?o e) = fst (inject_entry a inh d objs e)" for e
    by (rule inject_entry_cong) (simp add: inject_entry_norm)
  with Cons.IH [OF cs]
  have "cs = map component (filter (\<lambda>e. fst (inject_entry a inh d objs e) = Inr True) es)"
    by simp
  with x comps show ?case by simp
qed





lemma fst_getInjectedComponents:
  "insertions st key = Some es \<Longrightarrow>
   fst (getInjectedComponents a inh st key d) = fst (inject_each a inh d (objects st) es)"
  by (simp add: getInjectedComponents_def split: prod.splits)

lemma snd_getInjectedComponents:
  "insertions st key = Some es \<Longrightarrow>
   snd (getInjectedComponents a inh st key d) =
     st\<lparr>objects := snd (inject_each a inh d (objects st) es)\<rparr>"
  by (simp add: getInjectedComponents_def split: prod.splits)

lemma getInjectedComponents_None:
  "insertions st key = None \<Longrightarrow>
   getInjectedComponents a inh st key d =
     (if key \<in> set prototype_members then (Inl TypeError, st) else (Inr [], st))"
  by (simp add: getInjectedComponents_def)

lemma insertions_getInjectedComponents:
  "insertions (snd (getInjectedComponents a inh st key d)) = insertions st"
  by (cases "insertions st key")
    (simp_all add: getInjectedComponents_None snd_getInjectedComponents)

lemma next_object_getInjectedComponents:
  "next_object (snd (getInjectedComponents a inh st key d)) = next_object st"
  by (cases "insertions st key")
    (simp_all add: getInjectedComponents_None snd_getInjectedComponents)

lemma objects_getInjectedComponents:
  "objects (snd (getInjectedComponents a inh st key d)) r = objects st r \<or>
   objects (snd (getInjectedComponents a inh st key d)) r = normalize_when (objects st r)"
proof (cases "insertions st key")
  case None
  then show ?thesis by (simp add: getInjectedComponents_None)
next
  case (Some es)
  with inject_each_step [of a inh d "objects st" es r] show ?thesis
    by (simp add: snd_getInjectedComponents)
qed

lemma objects_getInjectedComponents_norm:
  "normalize_when (objects (snd (getInjectedComponents a inh st key d)) r) =
   normalize_when (objects st r)"
  using objects_getInjectedComponents [of a inh st key d r] normalize_when_idem [of "objects st r"]
  by auto

lemma objects_getInjectedComponents_frame:
  assumes "\<forall>es. insertions st key = Some es \<longrightarrow> (\<forall>e\<in>set es. conditions e \<noteq> Conditions r)"
  shows "objects (snd (getInjectedComponents a inh st key d)) r = objects st r"
proof (cases "insertions st key")
  case None
  then show ?thesis by (simp add: getInjectedComponents_None)
next
  case (Some es)
  with assms have "\<forall>e\<in>set es. conditions e \<noteq> Conditions r" by simp
  from inject_each_frame [OF this, of a inh d "objects st"] Some show ?thesis
    by (simp add: snd_getInjectedComponents)
qed

lemma getInjectedComponents_after:
  "fst (getInjectedComponents a inh (snd (getInjectedComponents a inh st key d)) key' d') =
   fst (getInjectedComponents a inh st key' d')"
proof (cases "insertions st key'")
  case None
  then have "insertions (snd (getInjectedComponents a inh st key d)) key' = None"
    by (simp add: insertions_getInjectedComponents)
  with None show ?thesis by (simp add: getInjectedComponents_None)
next
  case (Some es)
  then have s: "insertions (snd (getInjectedComponents a inh st key d)) key' = Some es"
    by (simp add: insertions_getInjectedComponents)
  have "fst (inject_each a inh d' (objects (snd (getInjectedComponents a inh st key d))) es) =
      fst (inject_each a inh d' (objects st) es)"
    by (rule inject_each_cong) (simp add: objects_getInjectedComponents_norm)
  then show ?thesis
    by (simp add: fst_getInjectedComponents [OF s] fst_getInjectedComponents [OF Some])
qed




text \<open>
  An entry registered through the object form with no other key than \<open>component\<close> and
  \<open>where\<close> stores \<open>null\<close> as its conditions, and resolving its key raises.
\<close>

lemma named_registration_raises:
  "fst (getInjectedComponents a inh
     (insert_component empty_registry end' (Named componentName location None))
     (end' @ js ''-'' @ location) d) = Inl TypeError"
  by (simp add: getInjectedComponents_def inject_entry_def empty_registry_def)

text \<open>
  A \<open>when\<close> name that is a member of \<open>Object.prototype\<close> is not reported as invalid:
  \<open>constructor\<close> is called and its result is truthy, so the entry is included, and
  \<open>__proto__\<close> is not a function, so the call raises.
\<close>

lemma inherited_handlers:
  "condition_voter a object_prototype d (js ''constructor'') = Inr True \<and>
   condition_voter a object_prototype d (js ''__proto__'') = Inl TypeError \<and>
   condition_voter a object_prototype d (js ''nope'') = Inr False"
  by (simp add: condition_voter_def run_handler_def object_prototype_def split_fn_def
      split_arg_def js_def)

lemma inherited_handler_results:
  "fst (getInjectedComponents a object_prototype
     (insert_component empty_registry (js ''prepend'')
        (Named (js ''m:c'') (js ''head'')
           (Some \<lparr>c_when = WhenStr (js ''constructor''), c_bundler = None\<rparr>)))
     (js ''prepend-head'')
     \<lparr>d_end = js ''prepend'', d_where = js ''head'', d_when = Some (js ''constructor'')\<rparr>) =
     Inr [js ''m:c''] \<and>
   fst (getInjectedComponents a object_prototype
     (insert_component empty_registry (js ''prepend'')
        (Named (js ''m:c'') (js ''head'')
           (Some \<lparr>c_when = WhenStr (js ''__proto__''), c_bundler = None\<rparr>)))
     (js ''prepend-head'')
     \<lparr>d_end = js ''prepend'', d_where = js ''head'', d_when = Some (js ''__proto__'')\<rparr>) =
     Inl TypeError"
proof -
  have k: "insertions (insert_component empty_registry (js ''prepend'')
        (Named (js ''m:c'') (js ''head'') (Some c))) (js ''prepend-head'') =
      Some [\<lparr>component = js ''m:c'', conditions = Conditions 0\<rparr>]" for c
    by (simp add: new_object_def empty_registry_def js_def Let_def)
  have o: "objects (insert_component empty_registry (js ''prepend'')
        (Named (js ''m:c'') (js ''head'') (Some c))) 0 = c" for c
    by (simp add: new_object_def empty_registry_def Let_def)
  have 1: "fst (inject_decision a object_prototype
      \<lparr>d_end = js ''prepend'', d_where = js ''head'', d_when = Some (js ''constructor'')\<rparr>
      \<lparr>c_when = WhenStr (js ''constructor''), c_bundler = None\<rparr>) = Inr True"
    by (simp add: inject_decision_def js_def normalize_when_def when_items_def
        truthy_when_def split_fn_def split_arg_def condition_voter_def run_handler_def
        object_prototype_def)
  have 2: "fst (inject_decision a object_prototype
      \<lparr>d_end = js ''prepend'', d_where = js ''head'', d_when = Some (js ''__proto__'')\<rparr>
      \<lparr>c_when = WhenStr (js ''__proto__''), c_bundler = None\<rparr>) = Inl TypeError"
    by (simp add: inject_decision_def js_def normalize_when_def when_items_def
        truthy_when_def split_fn_def split_arg_def condition_voter_def run_handler_def
        object_prototype_def)
  show ?thesis
    by (simp add: fst_getInjectedComponents [OF k] fst_inject_each_Cons fst_inject_entry o 1 2
        fst_inject_each_Nil del: inject_each.simps insert_component.simps)
qed

text \<open>
  C5 (amended). \<open>getInjectedComponents\<close> is a filter that is deterministic in the
  registry, the call-site data and the answers of the asset module, and its only
  mutation is the in-place normalization of \<open>when\<close>: the registry lists are left as
  they are (no entry is added, removed or reordered, and no component or reference
  changes) and no object is made; every conditions object is left as it was or with
  its \<open>when\<close> normalized to a list, and an object that no entry of the resolved key
  refers to is left as it was (an object that such an entry shares with entries of
  other keys is normalized for those too); a returned list is the list of the
  components of the entries that pass, in registration order; a key with no entries
  that is no member of \<open>Object.prototype\<close> gives the empty list and leaves everything
  as it is. The normalization is not visible in results: after a call, a call for any
  key with any call-site data returns what it would have returned before.
\<close>

theorem getInjectedComponents_filter:
  "insertions (snd (getInjectedComponents a inh st key d)) = insertions st \<and>
   next_object (snd (getInjectedComponents a inh st key d)) = next_object st \<and>
   (\<forall>r. objects (snd (getInjectedComponents a inh st key d)) r = objects st r \<or>
        objects (snd (getInjectedComponents a inh st key d)) r = normalize_when (objects st r)) \<and>
   (\<forall>r. (\<forall>es. insertions st key = Some es \<longrightarrow> (\<forall>e\<in>set es. conditions e \<noteq> Conditions r)) \<longrightarrow>
        objects (snd (getInjectedComponents a inh st key d)) r = objects st r) \<and>
   (\<forall>es comps. insertions st key = Some es \<longrightarrow>
        fst (getInjectedComponents a inh st key d) = Inr comps \<longrightarrow>
        comps = map component
          (filter (\<lambda>e. fst (inject_entry a inh d (objects st) e) = Inr True) es)) \<and>
   (insertions st key = None \<longrightarrow> key \<notin> set prototype_members \<longrightarrow>
        getInjectedComponents a inh st key d = (Inr [], st)) \<and>
   (\<forall>key' d'.
        fst (getInjectedComponents a inh (snd (getInjectedComponents a inh st key d)) key' d') =
        fst (getInjectedComponents a inh st key' d'))"
proof -
  have 1: "\<forall>r. objects (snd (getInjectedComponents a inh st key d)) r = objects st r \<or>
        objects (snd (getInjectedComponents a inh st key d)) r = normalize_when (objects st r)"
    using objects_getInjectedComponents [of a inh st key d] by blast
  have 2: "\<forall>r. (\<forall>es. insertions st key = Some es \<longrightarrow> (\<forall>e\<in>set es. conditions e \<noteq> Conditions r)) \<longrightarrow>
        objects (snd (getInjectedComponents a inh st key d)) r = objects st r"
    using objects_getInjectedComponents_frame [of st key _ a inh d] by blast
  have 3: "\<forall>es comps. insertions st key = Some es \<longrightarrow>
        fst (getInjectedComponents a inh st key d) = Inr comps \<longrightarrow>
        comps = map component
          (filter (\<lambda>e. fst (inject_entry a inh d (objects st) e) = Inr True) es)"
  proof (intro allI impI)
    fix es comps
    assume k: "insertions st key = Some es"
      and c: "fst (getInjectedComponents a inh st key d) = Inr comps"
    from c have "fst (inject_each a inh d (objects st) es) = Inr comps"
      by (simp add: fst_getInjectedComponents [OF k])
    then show "comps = map component
          (filter (\<lambda>e. fst (inject_entry a inh d (objects st) e) = Inr True) es)"
      by (rule inject_each_filter)
  qed
  have 4: "insertions st key = None \<longrightarrow> key \<notin> set prototype_members \<longrightarrow>
        getInjectedComponents a inh st key d = (Inr [], st)"
    by (simp add: getInjectedComponents_None)
  have 5: "\<forall>key' d'.
        fst (getInjectedComponents a inh (snd (getInjectedComponents a inh st key d)) key' d') =
        fst (getInjectedComponents a inh st key' d')"
    using getInjectedComponents_after [of a inh st key d] by blast
  from insertions_getInjectedComponents [of a inh st key d]
    next_object_getInjectedComponents [of a inh st key d] 1 2 3 4 5
  show ?thesis by (intro conjI)
qed

theorem getInjectedComponents_filter_counterexample:
  "fst (new_object empty_registry \<lparr>c_when = WhenStr (js ''hmr''), c_bundler = None\<rparr>) = 0 \<and>
   insertions
     (insert_component
        (insert_component
           (snd (new_object empty_registry \<lparr>c_when = WhenStr (js ''hmr''), c_bundler = None\<rparr>))
           (js ''prepend'') (Positional (js ''head'') (js ''m:c'') (Conditions 0)))
        (js ''append'') (Positional (js ''body'') (js ''m:c'') (Conditions 0)))
     (js ''append-body'') = Some [\<lparr>component = js ''m:c'', conditions = Conditions 0\<rparr>] \<and>
   objects
     (insert_component
        (insert_component
           (snd (new_object empty_registry \<lparr>c_when = WhenStr (js ''hmr''), c_bundler = None\<rparr>))
           (js ''prepend'') (Positional (js ''head'') (js ''m:c'') (Conditions 0)))
        (js ''append'') (Positional (js ''body'') (js ''m:c'') (Conditions 0))) 0 =
     \<lparr>c_when = WhenStr (js ''hmr''), c_bundler = None\<rparr> \<and>
   objects
     (snd (getInjectedComponents
        \<lparr>hasHMR = True, devServer = None, isDevMode = True, isProductionMode = False,
           hasBuildModule = False, getBuildModuleAlias = []\<rparr>
        object_prototype
        (insert_component
           (insert_component
              (snd (new_object empty_registry
                 \<lparr>c_when = WhenStr (js ''hmr''), c_bundler = None\<rparr>))
              (js ''prepend'') (Positional (js ''head'') (js ''m:c'') (Conditions 0)))
           (js ''append'') (Positional (js ''body'') (js ''m:c'') (Conditions 0)))
        (js ''prepend-head'')
        \<lparr>d_end = js ''prepend'', d_where = js ''head'', d_when = Some (js ''hmr'')\<rparr>)) 0 =
     \<lparr>c_when = WhenArr [js ''hmr''], c_bundler = None\<rparr> \<and>
   snd (getInjectedComponents
        \<lparr>hasHMR = True, devServer = None, isDevMode = True, isProductionMode = False,
           hasBuildModule = False, getBuildModuleAlias = []\<rparr>
        object_prototype
        (insert_component
           (insert_component
              (snd (new_object empty_registry
                 \<lparr>c_when = WhenStr (js ''hmr''), c_bundler = None\<rparr>))
              (js ''prepend'') (Positional (js ''head'') (js ''m:c'') (Conditions 0)))
           (js ''append'') (Positional (js ''body'') (js ''m:c'') (Conditions 0)))
        (js ''prepend-head'')
        \<lparr>d_end = js ''prepend'', d_where = js ''head'', d_when = Some (js ''hmr'')\<rparr>) \<noteq>
     (insert_component
        (insert_component
           (snd (new_object empty_registry \<lparr>c_when = WhenStr (js ''hmr''), c_bundler = None\<rparr>))
           (js ''prepend'') (Positional (js ''head'') (js ''m:c'') (Conditions 0)))
        (js ''append'') (Positional (js ''body'') (js ''m:c'') (Conditions 0)))"
proof -
  define c where "c = \<lparr>c_when = WhenStr (js ''hmr''), c_bundler = None\<rparr>"
  define st where "st = insert_component
        (insert_component (snd (new_object empty_registry c))
           (js ''prepend'') (Positional (js ''head'') (js ''m:c'') (Conditions 0)))
        (js ''append'') (Positional (js ''body'') (js ''m:c'') (Conditions 0))"
  define a where "a = \<lparr>hasHMR = True, devServer = None, isDevMode = True,
        isProductionMode = False, hasBuildModule = False, getBuildModuleAlias = []\<rparr>"
  define d where "d = \<lparr>d_end = js ''prepend'', d_where = js ''head'', d_when = Some (js ''hmr'')\<rparr>"
  define e where "e = \<lparr>component = js ''m:c'', conditions = Conditions 0\<rparr>"
  have addr: "fst (new_object empty_registry c) = 0"
    by (simp add: new_object_def empty_registry_def)
  have k1: "insertions st (js ''prepend-head'') = Some [e]"
    by (simp add: st_def e_def new_object_def empty_registry_def js_def Let_def)
  have k2: "insertions st (js ''append-body'') = Some [e]"
    by (simp add: st_def e_def new_object_def empty_registry_def js_def Let_def)
  have o: "objects st 0 = c"
    by (simp add: st_def new_object_def empty_registry_def Let_def)
  have dec: "inject_decision a object_prototype d c =
      (Inr True, \<lparr>c_when = WhenArr [js ''hmr''], c_bundler = None\<rparr>)"
    by (simp add: a_def d_def c_def inject_decision_def js_def normalize_when_def when_items_def
        truthy_when_def split_fn_def split_arg_def condition_voter_def run_handler_def)
  have ent: "inject_entry a object_prototype d (objects st) e =
      (Inr True, (objects st)(0 := \<lparr>c_when = WhenArr [js ''hmr''], c_bundler = None\<rparr>))"
    by (simp add: inject_entry_def e_def o dec)
  have run: "snd (getInjectedComponents a object_prototype st (js ''prepend-head'') d) =
       st\<lparr>objects := (objects st)(0 := \<lparr>c_when = WhenArr [js ''hmr''], c_bundler = None\<rparr>)\<rparr>"
    by (simp add: getInjectedComponents_def k1 ent)
  have after: "objects (snd (getInjectedComponents a object_prototype st (js ''prepend-head'') d)) 0 =
      \<lparr>c_when = WhenArr [js ''hmr''], c_bundler = None\<rparr>"
    by (simp add: run)
  have "objects (snd (getInjectedComponents a object_prototype st (js ''prepend-head'') d)) 0 \<noteq>
      objects st 0"
    unfolding after o by (simp add: c_def)
  then have ne: "snd (getInjectedComponents a object_prototype st (js ''prepend-head'') d) \<noteq> st"
    by metis
  from addr k2 o after ne have
    "fst (new_object empty_registry c) = 0 \<and>
     insertions st (js ''append-body'') = Some [e] \<and>
     objects st 0 = c \<and>
     objects (snd (getInjectedComponents a object_prototype st (js ''prepend-head'') d)) 0 =
       \<lparr>c_when = WhenArr [js ''hmr''], c_bundler = None\<rparr> \<and>
     snd (getInjectedComponents a object_prototype st (js ''prepend-head'') d) \<noteq> st"
    by simp
  then show ?thesis
    unfolding st_def a_def d_def e_def c_def .
qed

theorem getInjectedComponents_filter_witness:
  "insertions (snd (getInjectedComponents
     \<lparr>hasHMR = True, devServer = None, isDevMode = True, isProductionMode = False,
        hasBuildModule = False, getBuildModuleAlias = []\<rparr>
     object_prototype
     (insert_component empty_registry (js ''prepend'')
        (Named (js ''m:c'') (js ''head'')
           (Some \<lparr>c_when = WhenStr (js ''hmr''), c_bundler = None\<rparr>)))
     (js ''prepend-head'')
     \<lparr>d_end = js ''prepend'', d_where = js ''head'', d_when = Some (js ''hmr'')\<rparr>)) =
     insertions (insert_component empty_registry (js ''prepend'')
        (Named (js ''m:c'') (js ''head'')
           (Some \<lparr>c_when = WhenStr (js ''hmr''), c_bundler = None\<rparr>))) \<and>
   objects (snd (getInjectedComponents
     \<lparr>hasHMR = True, devServer = None, isDevMode = True, isProductionMode = False,
        hasBuildModule = False, getBuildModuleAlias = []\<rparr>
     object_prototype
     (insert_component empty_registry (js ''prepend'')
        (Named (js ''m:c'') (js ''head'')
           (Some \<lparr>c_when = WhenStr (js ''hmr''), c_bundler = None\<rparr>)))
     (js ''prepend-head'')
     \<lparr>d_end = js ''prepend'', d_where = js ''head'', d_when = Some (js ''hmr'')\<rparr>)) 1 =
     objects (insert_component empty_registry (js ''prepend'')
        (Named (js ''m:c'') (js ''head'')
           (Some \<lparr>c_when = WhenStr (js ''hmr''), c_bundler = None\<rparr>))) 1 \<and>
   fst (getInjectedComponents
     \<lparr>hasHMR = True, devServer = None, isDevMode = True, isProductionMode = False,
        hasBuildModule = False, getBuildModuleAlias = []\<rparr>
     object_prototype
     (insert_component empty_registry (js ''prepend'')
        (Named (js ''m:c'') (js ''head'')
           (Some \<lparr>c_when = WhenStr (js ''hmr''), c_bundler = None\<rparr>)))
     (js ''prepend-head'')
     \<lparr>d_end = js ''prepend'', d_where = js ''head'', d_when = Some (js ''hmr'')\<rparr>) = Inr [js ''m:c''] \<and>
   [js ''m:c''] = map component
     (filter (\<lambda>e. fst (inject_entry
        \<lparr>hasHMR = True, devServer = None, isDevMode = True, isProductionMode = False,
        hasBuildModule = False, getBuildModuleAlias = []\<rparr>
        object_prototype
        \<lparr>d_end = js ''prepend'', d_where = js ''head'', d_when = Some (js ''hmr'')\<rparr>
        (objects (insert_component empty_registry (js ''prepend'')
        (Named (js ''m:c'') (js ''head'')
           (Some \<lparr>c_when = WhenStr (js ''hmr''), c_bundler = None\<rparr>)))) e) = Inr True)
        [\<lparr>component = js ''m:c'', conditions = Conditions 0\<rparr>]) \<and>
   getInjectedComponents
     \<lparr>hasHMR = True, devServer = None, isDevMode = True, isProductionMode = False,
        hasBuildModule = False, getBuildModuleAlias = []\<rparr>
     object_prototype
     (insert_component empty_registry (js ''prepend'')
        (Named (js ''m:c'') (js ''head'')
           (Some \<lparr>c_when = WhenStr (js ''hmr''), c_bundler = None\<rparr>)))
     (js ''append-head'')
     \<lparr>d_end = js ''prepend'', d_where = js ''head'', d_when = Some (js ''hmr'')\<rparr> =
     (Inr [], (insert_component empty_registry (js ''prepend'')
        (Named (js ''m:c'') (js ''head'')
           (Some \<lparr>c_when = WhenStr (js ''hmr''), c_bundler = None\<rparr>)))) \<and>
   fst (getInjectedComponents
     \<lparr>hasHMR = True, devServer = None, isDevMode = True, isProductionMode = False,
        hasBuildModule = False, getBuildModuleAlias = []\<rparr>
     object_prototype
     (snd (getInjectedComponents
     \<lparr>hasHMR = True, devServer = None, isDevMode = True, isProductionMode = False,
        hasBuildModule = False, getBuildModuleAlias = []\<rparr>
     object_prototype
     (insert_component empty_registry (js ''prepend'')
        (Named (js ''m:c'') (js ''head'')
           (Some \<lparr>c_when = WhenStr (js ''hmr''), c_bundler = None\<rparr>)))
     (js ''prepend-head'')
     \<lparr>d_end = js ''prepend'', d_where = js ''head'', d_when = Some (js ''hmr'')\<rparr>))
     (js ''prepend-head'')
     \<lparr>d_end = js ''prepend'', d_where = js ''head'', d_when = None\<rparr>) =
     fst (getInjectedComponents
     \<lparr>hasHMR = True, devServer = None, isDevMode = True, isProductionMode = False,
        hasBuildModule = False, getBuildModuleAlias = []\<rparr>
     object_prototype
     (insert_component empty_registry (js ''prepend'')
        (Named (js ''m:c'') (js ''head'')
           (Some \<lparr>c_when = WhenStr (js ''hmr''), c_bundler = None\<rparr>)))
     (js ''prepend-head'')
     \<lparr>d_end = js ''prepend'', d_where = js ''head'', d_when = None\<rparr>)"
proof -
  define a where "a = \<lparr>hasHMR = True, devServer = None, isDevMode = True,
        isProductionMode = False, hasBuildModule = False, getBuildModuleAlias = []\<rparr>"
  define c where "c = \<lparr>c_when = WhenStr (js ''hmr''), c_bundler = None\<rparr>"
  define e where "e = \<lparr>component = js ''m:c'', conditions = Conditions 0\<rparr>"
  define k1 where "k1 = js ''prepend-head''"
  define k2 where "k2 = js ''append-head''"
  define st where "st = insert_component empty_registry (js ''prepend'')
        (Named (js ''m:c'') (js ''head'') (Some c))"
  define d where "d = \<lparr>d_end = js ''prepend'', d_where = js ''head'', d_when = Some (js ''hmr'')\<rparr>"
  define d0 where "d0 = \<lparr>d_end = js ''prepend'', d_where = js ''head'', d_when = None\<rparr>"
  have ins: "insertions st = [k1 \<mapsto> [e]]"
    by (simp add: st_def k1_def e_def new_object_def empty_registry_def js_def Let_def)
  have ne: "k2 \<noteq> k1" by (simp add: k1_def k2_def js_def)
  have before: "insertions st k1 = Some [e]" by (simp add: ins)
  have other: "insertions st k2 = None" using ne by (simp add: ins)
  have nm: "k2 \<notin> set prototype_members" by (simp add: k2_def prototype_members_def js_def)
  have o: "objects st 0 = c"
    by (simp add: st_def new_object_def empty_registry_def Let_def)
  have dec: "inject_decision a object_prototype d c =
      (Inr True, \<lparr>c_when = WhenArr [js ''hmr''], c_bundler = None\<rparr>)"
    by (simp add: a_def d_def c_def inject_decision_def js_def normalize_when_def when_items_def
        truthy_when_def split_fn_def split_arg_def condition_voter_def run_handler_def)
  have ent: "inject_entry a object_prototype d (objects st) e =
      (Inr True, (objects st)(0 := \<lparr>c_when = WhenArr [js ''hmr''], c_bundler = None\<rparr>))"
    by (simp add: inject_entry_def e_def o dec)
  have res: "fst (getInjectedComponents a object_prototype st k1 d) = Inr [js ''m:c'']"
    by (simp add: getInjectedComponents_def before ent) (simp add: e_def)
  have unref: "\<forall>es. insertions st k1 = Some es \<longrightarrow> (\<forall>x\<in>set es. conditions x \<noteq> Conditions 1)"
    by (simp add: before e_def)
  note th1 = getInjectedComponents_filter [of a object_prototype st k1 d]
  note th2 = getInjectedComponents_filter [of a object_prototype st k2 d]
  from th1 have 1: "insertions (snd (getInjectedComponents a object_prototype st k1 d)) =
      insertions st"
    by (rule conjunct1)
  from th1 unref
  have 2: "objects (snd (getInjectedComponents a object_prototype st k1 d)) 1 = objects st 1"
    by blast
  from th1 before res
  have 3: "[js ''m:c''] = map component
     (filter (\<lambda>e. fst (inject_entry a object_prototype d (objects st) e) = Inr True) [e])"
    by blast
  from th2 other nm
  have 4: "getInjectedComponents a object_prototype st k2 d = (Inr [], st)"
    by blast
  from th1
  have 5: "fst (getInjectedComponents a object_prototype
        (snd (getInjectedComponents a object_prototype st k1 d)) k1 d0) =
      fst (getInjectedComponents a object_prototype st k1 d0)"
    by blast
  from 1 2 res 3 4 5 have
    "insertions (snd (getInjectedComponents a object_prototype st k1 d)) = insertions st \<and>
     objects (snd (getInjectedComponents a object_prototype st k1 d)) 1 = objects st 1 \<and>
     fst (getInjectedComponents a object_prototype st k1 d) = Inr [js ''m:c''] \<and>
     [js ''m:c''] = map component
       (filter (\<lambda>e. fst (inject_entry a object_prototype d (objects st) e) = Inr True) [e]) \<and>
     getInjectedComponents a object_prototype st k2 d = (Inr [], st) \<and>
     fst (getInjectedComponents a object_prototype
        (snd (getInjectedComponents a object_prototype st k1 d)) k1 d0) =
      fst (getInjectedComponents a object_prototype st k1 d0)"
    by (intro conjI)
  then show ?thesis
    unfolding a_def c_def e_def k1_def k2_def st_def d_def d0_def .
qed

subsection \<open>Render data\<close>

lemma obj_get_defaults:
  "obj_get (defaults dest src) k =
     (if obj_get dest k \<noteq> JUndefined then obj_get dest k else obj_get src k)"
  by (simp add: obj_get_def defaults_def split: option.splits)

lemma obj_get_empty: "obj_get Map.empty k = JUndefined"
  by (simp add: obj_get_def)

lemma obj_get_update: "obj_get (m(k' \<mapsto> v)) k = (if k = k' then v else obj_get m k)"
  by (simp add: obj_get_def)

text \<open>
  C3 (amended). The context passed to the template as \<open>data\<close> merges, in increasing
  priority, the module's \<open>templateData\<close>, the request-derived defaults \<open>user\<close> and
  \<open>permissions\<close>, \<open>req.data\<close> and the explicit \<open>data\<close> argument: the value of a key
  is that of the highest-priority source in which it is not \<open>undefined\<close>. For
  \<open>locale\<close> that value is kept when it is truthy, and \<open>req.locale\<close> is used otherwise.
\<close>

theorem getRenderDataArgs_priority:
  "obj_get (getRenderDataArgs req data templateData) k =
     (let d = (case data of None \<Rightarrow> JUndefined | Some m \<Rightarrow> obj_get m k);
          r = (case req_data req of None \<Rightarrow> JUndefined | Some m \<Rightarrow> obj_get m k);
          u = (if k = js ''user'' then req_user req
               else if k = js ''permissions'' then user_permissions req
               else JUndefined);
          t = (case templateData of None \<Rightarrow> JUndefined | Some m \<Rightarrow> obj_get m k);
          v = (if d \<noteq> JUndefined then d
               else if r \<noteq> JUndefined then r
               else if u \<noteq> JUndefined then u
               else t)
      in if k = js ''locale'' then (if truthy v then v else req_locale req) else v)"
proof -
  define m1 where "m1 = (case data of Some d \<Rightarrow> defaults Map.empty d | None \<Rightarrow> Map.empty)"
  define m2 where "m2 = (case req_data req of Some d \<Rightarrow> defaults m1 d | None \<Rightarrow> m1)"
  define m3 where "m3 = defaults m2
                     [js ''user'' \<mapsto> req_user req,
                      js ''permissions'' \<mapsto> user_permissions req]"
  define m4 where "m4 = (case templateData of Some t \<Rightarrow> defaults m3 t | None \<Rightarrow> m3)"
  define d where "d = (case data of None \<Rightarrow> JUndefined | Some m \<Rightarrow> obj_get m k)"
  define r where "r = (case req_data req of None \<Rightarrow> JUndefined | Some m \<Rightarrow> obj_get m k)"
  define u where "u = (if k = js ''user'' then req_user req
               else if k = js ''permissions'' then user_permissions req
               else JUndefined)"
  define t where "t = (case templateData of None \<Rightarrow> JUndefined | Some m \<Rightarrow> obj_get m k)"
  have ne: "js ''permissions'' \<noteq> js ''user''" by (simp add: js_def)
  have g: "getRenderDataArgs req data templateData =
      m4(js ''locale'' \<mapsto>
           (if truthy (obj_get m4 (js ''locale'')) then obj_get m4 (js ''locale'')
            else req_locale req))"
    by (simp only: getRenderDataArgs_def m1_def m2_def m3_def m4_def Let_def)
  have g1: "obj_get m1 k = d"
    by (cases data) (simp_all add: m1_def d_def obj_get_defaults obj_get_empty)
  have g2: "obj_get m2 k = (if d \<noteq> JUndefined then d else r)"
    by (cases "req_data req") (simp_all add: m2_def r_def obj_get_defaults g1)
  have gu: "obj_get [js ''user'' \<mapsto> req_user req, js ''permissions'' \<mapsto> user_permissions req] k = u"
    using ne by (simp add: obj_get_update obj_get_empty u_def)
  have g3: "obj_get m3 k = (if d \<noteq> JUndefined then d else if r \<noteq> JUndefined then r else u)"
    by (simp add: m3_def obj_get_defaults g2 gu)
  have g4: "obj_get m4 k = (if d \<noteq> JUndefined then d else if r \<noteq> JUndefined then r
      else if u \<noteq> JUndefined then u else t)"
    by (cases templateData) (simp_all add: m4_def t_def obj_get_defaults g3)
  have "obj_get (getRenderDataArgs req data templateData) k =
      (if k = js ''locale'' then
         (if truthy (obj_get m4 k) then obj_get m4 k else req_locale req)
       else obj_get m4 k)"
    unfolding g by (simp add: obj_get_update)
  then show ?thesis
    unfolding g4 d_def r_def u_def t_def Let_def .
qed

theorem getRenderDataArgs_priority_counterexample:
  "getRenderDataArgs
     \<lparr>req_data = None, req_user = JObj [(js ''username'', JStr (js ''admin''))],
        req_locale = JStr (js ''en'')\<rparr>
     (Some [js ''user'' \<mapsto> JStr (js ''explicit'')]) None (js ''user'') =
   Some (JStr (js ''explicit'')) \<and>
   getRenderDataArgs
     \<lparr>req_data = None, req_user = JObj [(js ''username'', JStr (js ''admin''))],
        req_locale = JStr (js ''en'')\<rparr>
     (Some [js ''user'' \<mapsto> JStr (js ''explicit'')]) None (js ''user'') \<noteq>
   Some (JObj [(js ''username'', JStr (js ''admin''))])"
  by (simp add: getRenderDataArgs_def defaults_def obj_get_def js_def Let_def)

subsection \<open>Rendering nodes\<close>

lemma trimEnd_prefix: "\<exists>k. trimEnd s = take k s"
proof -
  have "dropWhile isWhiteSpace (rev s) = drop (length (takeWhile isWhiteSpace (rev s))) (rev s)"
    by (rule dropWhile_eq_drop)
  then have "trimEnd s = take (length s - length (takeWhile isWhiteSpace (rev s))) s"
    by (simp add: trimEnd_def rev_drop)
  then show ?thesis ..
qed

lemma trimEnd_last: "trimEnd s \<noteq> [] \<Longrightarrow> \<not> isWhiteSpace (last (trimEnd s))"
proof -
  assume ne: "trimEnd s \<noteq> []"
  then have z: "dropWhile isWhiteSpace (rev s) \<noteq> []" by (simp add: trimEnd_def)
  then have "\<not> isWhiteSpace (hd (dropWhile isWhiteSpace (rev s)))" by (rule hd_dropWhile)
  with z show ?thesis by (simp add: trimEnd_def last_rev)
qed

lemma trimStart_hd: "trimStart s \<noteq> [] \<Longrightarrow> \<not> isWhiteSpace (hd (trimStart s))"
  unfolding trimStart_def by (rule hd_dropWhile)

lemma trimEnd_hd: "trimEnd s \<noteq> [] \<Longrightarrow> hd (trimEnd s) = hd s"
proof -
  assume ne: "trimEnd s \<noteq> []"
  obtain k where k: "trimEnd s = take k s" using trimEnd_prefix by blast
  with ne have "0 < k" by (cases k) simp_all
  with k show ?thesis by (simp add: hd_take)
qed

lemma trim_ends:
  "trim s \<noteq> [] \<Longrightarrow> \<not> isWhiteSpace (hd (trim s)) \<and> \<not> isWhiteSpace (last (trim s))"
proof -
  assume ne: "trim s \<noteq> []"
  then have ne': "trimEnd (trimStart s) \<noteq> []" by (simp add: trim_def)
  then have "trimStart s \<noteq> []" by (auto simp: trimEnd_def)
  then have "\<not> isWhiteSpace (hd (trimStart s))" by (rule trimStart_hd)
  with trimEnd_hd [OF ne'] have "\<not> isWhiteSpace (hd (trim s))" by (simp add: trim_def)
  moreover from trimEnd_last [OF ne'] have "\<not> isWhiteSpace (last (trim s))"
    by (simp add: trim_def)
  ultimately show ?thesis ..
qed

lemma trimStart_id: "s = [] \<or> \<not> isWhiteSpace (hd s) \<Longrightarrow> trimStart s = s"
  by (cases s) (auto simp: trimStart_def)

lemma trimEnd_id: "s = [] \<or> \<not> isWhiteSpace (last s) \<Longrightarrow> trimEnd s = s"
proof (cases "s = []")
  case True
  then show ?thesis by (simp add: trimEnd_def)
next
  case False
  assume "s = [] \<or> \<not> isWhiteSpace (last s)"
  with False have "\<not> isWhiteSpace (hd (rev s))" by (simp add: hd_rev)
  moreover from False have "rev s \<noteq> []" by simp
  ultimately have "dropWhile isWhiteSpace (rev s) = rev s"
    by (cases "rev s") auto
  then show ?thesis by (simp add: trimEnd_def)
qed

lemma trim_idem: "trim (trim s) = trim s"
proof (cases "trim s = []")
  case True
  have "trim [] = []" by (simp add: trim_def trimStart_def trimEnd_def)
  with True show ?thesis by simp
next
  case False
  from trim_ends [OF False] show ?thesis
    by (simp add: trim_def [of "trim s"] trimStart_id trimEnd_id)
qed

lemma renderEach_append:
  "renderEach esc v (xs @ ys) =
     (case renderEach esc v xs of
        Inl e \<Rightarrow> Inl e
      | Inr a \<Rightarrow> (case renderEach esc v ys of Inl e \<Rightarrow> Inl e | Inr b \<Rightarrow> Inr (a @ b)))"
  by (induction xs) (auto split: sum.splits)

lemma renderNode_malformed:
  "\<not> truthy_str t \<Longrightarrow> \<not> truthy_str c \<Longrightarrow> \<not> truthy_str r \<Longrightarrow> \<not> truthy_str n \<Longrightarrow>
   renderNode esc v (Node t c r n attrs body) = Inr []"
  by simp

lemma renderEach_skip:
  assumes "renderNode esc v bad = Inr []"
  shows "renderEach esc v (xs @ bad # ys) =
     (case renderEach esc v xs of
        Inl e \<Rightarrow> Inl e
      | Inr a \<Rightarrow> (case renderEach esc v ys of Inl e \<Rightarrow> Inl e | Inr b \<Rightarrow> Inr (a @ [] # b)))"
  using assms by (simp add: renderEach_append split: sum.splits)

lemma renderNodes_skip:
  assumes "renderNode esc v bad = Inr []"
  shows "renderNodes esc v (NodeArray (xs @ bad # ys)) = renderNodes esc v (NodeArray (xs @ ys))"
  using assms by (simp add: renderEach_append split: sum.splits)

lemma render_total:
  shows "all_objects ns \<Longrightarrow> \<exists>out. renderNodes esc v ns = Inr out"
    and "all_objects_list xs \<Longrightarrow> \<exists>outs. renderEach esc v xs = Inr outs"
    and "is_object n \<Longrightarrow> \<exists>out. renderNode esc v n = Inr out"
proof (induction ns and xs and n rule: all_objects_all_objects_list_is_object.induct)
  case 1
  then show ?case by simp
next
  case 2
  then show ?case by simp
next
  case (3 ns)
  then show ?case by auto
next
  case 4
  then show ?case by simp
next
  case (5 n ns)
  then show ?case by auto
next
  case 6
  then show ?case by simp
next
  case (7 t c r n attrs body)
  then show ?case by (auto simp: Let_def)
qed

text \<open>
  C8. A malformed node (an object with none of the four shapes \<open>text\<close>, \<open>comment\<close>,
  \<open>raw\<close>, \<open>name\<close>) does not make \<open>renderNodes\<close> raise: it renders to the empty string,
  the renderings of its siblings are what they are without it, and the result of the
  whole list is the result of the list without the node. When every element of the
  list is an object, at every depth, \<open>renderNodes\<close> returns.
\<close>

theorem renderNodes_malformed:
  assumes "\<not> truthy_str t" and "\<not> truthy_str c" and "\<not> truthy_str r" and "\<not> truthy_str n"
  shows "renderNode esc v (Node t c r n attrs body) = Inr [] \<and>
    renderNodes esc v (NodeArray (xs @ Node t c r n attrs body # ys)) =
      renderNodes esc v (NodeArray (xs @ ys)) \<and>
    (\<forall>a b. renderEach esc v xs = Inr a \<and> renderEach esc v ys = Inr b \<longrightarrow>
       renderEach esc v (xs @ Node t c r n attrs body # ys) = Inr (a @ [] # b)) \<and>
    (all_objects_list (xs @ ys) \<longrightarrow>
       (\<exists>out. renderNodes esc v (NodeArray (xs @ Node t c r n attrs body # ys)) = Inr out))"
proof -
  have bad: "renderNode esc v (Node t c r n attrs body) = Inr []"
    using assms by (rule renderNode_malformed)
  have same: "renderNodes esc v (NodeArray (xs @ Node t c r n attrs body # ys)) =
      renderNodes esc v (NodeArray (xs @ ys))"
    using bad by (rule renderNodes_skip)
  have each: "renderEach esc v (xs @ Node t c r n attrs body # ys) = Inr (a @ [] # b)"
    if "renderEach esc v xs = Inr a \<and> renderEach esc v ys = Inr b" for a b
    using that by (simp add: renderEach_skip [OF bad])
  have total: "\<exists>out. renderNodes esc v (NodeArray (xs @ Node t c r n attrs body # ys)) = Inr out"
    if "all_objects_list (xs @ ys)"
  proof -
    from that have "all_objects (NodeArray (xs @ ys))" by simp
    then have "\<exists>out. renderNodes esc v (NodeArray (xs @ ys)) = Inr out"
      by (rule render_total(1))
    with same show ?thesis by simp
  qed
  from bad same each total show ?thesis by blast
qed

theorem renderNodes_malformed_witness:
  "renderNode escapeHtml voidElements (Node None None None None [] NoNodes) = Inr [] \<and>
   renderNodes escapeHtml voidElements
     (NodeArray [Node (Some (js ''a'')) None None None [] NoNodes,
                 Node None None None None [] NoNodes,
                 Node (Some (js ''b'')) None None None [] NoNodes]) = Inr (js ''ab'') \<and>
   renderNodes escapeHtml voidElements
     (NodeArray [Node (Some (js ''a'')) None None None [] NoNodes,
                 Node (Some (js ''b'')) None None None [] NoNodes]) = Inr (js ''ab'')"
proof -
  define a where "a = Node (Some (js ''a'')) None None None [] NoNodes"
  define b where "b = Node (Some (js ''b'')) None None None [] NoNodes"
  have f: "\<not> truthy_str None" by simp
  note th = renderNodes_malformed [OF f f f f, of escapeHtml voidElements "[]" NoNodes "[a]" "[b]"]
  have ev: "renderNodes escapeHtml voidElements (NodeArray ([a] @ [b])) = Inr (js ''ab'')"
    by (simp add: a_def b_def escapeHtml_def js_def dquote_def trim_def trimStart_def
        trimEnd_def isWhiteSpace_def)
  from th have 1: "renderNode escapeHtml voidElements (Node None None None None [] NoNodes) = Inr []"
    by (rule conjunct1)
  from th have "renderNodes escapeHtml voidElements
      (NodeArray ([a] @ Node None None None None [] NoNodes # [b])) =
      renderNodes escapeHtml voidElements (NodeArray ([a] @ [b]))"
    by blast
  with ev have 2: "renderNodes escapeHtml voidElements
      (NodeArray ([a] @ Node None None None None [] NoNodes # [b])) = Inr (js ''ab'')"
    by simp
  from 1 2 ev show ?thesis
    unfolding a_def b_def by simp
qed

lemma renderNodes_trim:
  assumes "renderNodes esc v ns = Inr out"
  shows "trim out = out"
proof (cases ns)
  case NoNodes
  with assms have "out = []" by simp
  then show ?thesis by (simp add: trim_def trimStart_def trimEnd_def)
next
  case NotArray
  with assms have "out = []" by simp
  then show ?thesis by (simp add: trim_def trimStart_def trimEnd_def)
next
  case (NodeArray xs)
  with assms obtain ss where "out = trim (concat ss)"
    by (auto split: sum.splits)
  then show ?thesis by (simp add: trim_idem)
qed

lemma trimmed_ends:
  assumes "trim out = out" and "out \<noteq> []"
  shows "\<not> isWhiteSpace (hd out) \<and> \<not> isWhiteSpace (last out)"
proof -
  from assms have "trim out \<noteq> []" by simp
  from trim_ends [OF this] assms(1) show ?thesis by simp
qed

text \<open>
  C10. The result of every \<open>renderNodes\<close> call is trimmed at both ends: trimming it
  again changes nothing, and when it is not empty it neither starts nor ends with white
  space. The body of a named element is the trimmed rendering of its children, wrapped
  in the open and close tags, so no white space stands next to the tags inside the
  element.
\<close>

theorem renderNodes_trimmed:
  "(\<forall>out. renderNodes esc v ns = Inr out \<longrightarrow>
      trim out = out \<and>
      (out \<noteq> [] \<longrightarrow> \<not> isWhiteSpace (hd out) \<and> \<not> isWhiteSpace (last out))) \<and>
   (\<forall>out. \<not> truthy_str t \<and> \<not> truthy_str c \<and> \<not> truthy_str r \<and> truthy_str n \<and>
      \<not> (\<not> truthy_nodes body \<and> v (esc (str_of n))) \<and>
      renderNode esc v (Node t c r n attrs body) = Inr out \<longrightarrow>
      (\<exists>b. renderNodes esc v body = Inr b \<and>
         out = js ''<'' @ esc (str_of n) @ trimEnd (concat (map (renderAttr esc) attrs)) @
               js ''>'' @ trim b @ js ''</'' @ esc (str_of n) @ js ''>'' \<and>
         trim b = b \<and>
         (b \<noteq> [] \<longrightarrow> \<not> isWhiteSpace (hd b) \<and> \<not> isWhiteSpace (last b))))"
proof -
  have one: "trim out = out \<and>
      (out \<noteq> [] \<longrightarrow> \<not> isWhiteSpace (hd out) \<and> \<not> isWhiteSpace (last out))"
    if "renderNodes esc v ns = Inr out" for ns out
    using renderNodes_trim [OF that] trimmed_ends [of out] by blast
  have two: "\<exists>b. renderNodes esc v body = Inr b \<and>
         out = js ''<'' @ esc (str_of n) @ trimEnd (concat (map (renderAttr esc) attrs)) @
               js ''>'' @ trim b @ js ''</'' @ esc (str_of n) @ js ''>'' \<and>
         trim b = b \<and>
         (b \<noteq> [] \<longrightarrow> \<not> isWhiteSpace (hd b) \<and> \<not> isWhiteSpace (last b))"
    if h: "\<not> truthy_str t \<and> \<not> truthy_str c \<and> \<not> truthy_str r \<and> truthy_str n \<and>
      \<not> (\<not> truthy_nodes body \<and> v (esc (str_of n))) \<and>
      renderNode esc v (Node t c r n attrs body) = Inr out" for out
  proof -
    have eq: "(if truthy_nodes body then renderNodes esc v body else Inr []) =
        renderNodes esc v body"
      by (cases body) simp_all
    from h have nv: "\<not> (\<not> truthy_nodes body \<and> v (esc (str_of n)))" by blast
    from h have r: "(case renderNodes esc v body of
          Inl e \<Rightarrow> Inl e
        | Inr b \<Rightarrow> Inr (js ''<'' @ esc (str_of n) @
            trimEnd (concat (map (renderAttr esc) attrs)) @ js ''>'' @ trim b @ js ''</'' @
            esc (str_of n) @ js ''>'')) = Inr out"
      by (elim conjE) (simp add: nv Let_def eq del: renderNodes.simps)
    then obtain b where b: "renderNodes esc v body = Inr b"
      and out: "out = js ''<'' @ esc (str_of n) @
            trimEnd (concat (map (renderAttr esc) attrs)) @ js ''>'' @ trim b @ js ''</'' @
            esc (str_of n) @ js ''>''"
      by (cases "renderNodes esc v body") auto
    from one [OF b] b out show ?thesis by blast
  qed
  from one two show ?thesis by blast
qed

theorem renderNodes_trimmed_witness:
  "renderNodes escapeHtml voidElements
     (NodeArray [Node None None None (Some (js ''div'')) []
        (NodeArray [Node (Some (js '' x '')) None None None [] NoNodes])]) =
     Inr (js ''<div>x</div>'') \<and>
   trim (js ''<div>x</div>'') = js ''<div>x</div>'' \<and>
   renderNodes escapeHtml voidElements
     (NodeArray [Node (Some (js '' x '')) None None None [] NoNodes]) = Inr (js ''x'') \<and>
   renderNode escapeHtml voidElements
     (Node (Some (js '' x '')) None None None [] NoNodes) = Inr (js '' x '') \<and>
   (\<exists>b. renderNodes escapeHtml voidElements
          (NodeArray [Node (Some (js '' x '')) None None None [] NoNodes]) = Inr b \<and>
        js ''<div>x</div>'' = js ''<'' @ escapeHtml (js ''div'') @ js ''>'' @ trim b @ js ''</'' @
          escapeHtml (js ''div'') @ js ''>'' \<and>
        \<not> isWhiteSpace (hd b) \<and> \<not> isWhiteSpace (last b))"
proof -
  define body where "body = NodeArray [Node (Some (js '' x '')) None None None [] NoNodes]"
  define el where "el = Node None None None (Some (js ''div'')) [] body"
  define outer where "outer = NodeArray [el]"
  have ws: "isWhiteSpace 0x20" "\<not> isWhiteSpace 0x78" by (simp_all add: isWhiteSpace_def)
  have tx: "escapeHtml (js '' x '') = js '' x ''"
    by (simp add: escapeHtml_def js_def dquote_def)
  have tr: "trim (js '' x '') = js ''x''"
    using ws by (simp add: js_def trim_def trimStart_def trimEnd_def)
  have trx: "trim (js ''x'') = js ''x''"
    using ws by (simp add: js_def trim_def trimStart_def trimEnd_def)
  have dv: "escapeHtml (js ''div'') = js ''div''"
    by (simp add: escapeHtml_def js_def dquote_def)
  have nvoid: "\<not> voidElements (js ''div'')"
    by (simp add: voidElements_def prototype_members_def js_def)
  have tnode: "renderNode escapeHtml voidElements
     (Node (Some (js '' x '')) None None None [] NoNodes) = Inr (js '' x '')"
    using tx by (simp add: js_def)
  have b: "renderNodes escapeHtml voidElements body = Inr (js ''x'')"
    unfolding body_def using tnode tr by simp
  have trd: "trim (js ''<div>x</div>'') = js ''<div>x</div>''"
    by (simp add: js_def trim_def trimStart_def trimEnd_def isWhiteSpace_def)
  have tb: "truthy_nodes body" by (simp add: body_def)
  have e: "renderNode escapeHtml voidElements el = Inr (js ''<div>x</div>'')"
    unfolding el_def using b dv nvoid trx tb
    by (simp add: Let_def trimEnd_def js_def del: renderNodes.simps)
  have o: "renderNodes escapeHtml voidElements outer = Inr (js ''<div>x</div>'')"
    unfolding outer_def using e trd by simp
  note th = renderNodes_trimmed [of escapeHtml voidElements outer None None None
      "Some (js ''div'')" body "[]"]
  from th o have 1: "trim (js ''<div>x</div>'') = js ''<div>x</div>''" by blast
  have pre: "\<not> truthy_str None \<and> \<not> truthy_str None \<and> \<not> truthy_str None \<and>
      truthy_str (Some (js ''div'')) \<and>
      \<not> (\<not> truthy_nodes body \<and> voidElements (escapeHtml (str_of (Some (js ''div''))))) \<and>
      renderNode escapeHtml voidElements (Node None None None (Some (js ''div'')) [] body) =
        Inr (js ''<div>x</div>'')"
    using e nvoid dv by (simp add: el_def js_def body_def)
  from th pre have "\<exists>b. renderNodes escapeHtml voidElements body = Inr b \<and>
      js ''<div>x</div>'' = js ''<'' @ escapeHtml (str_of (Some (js ''div''))) @
        trimEnd (concat (map (renderAttr escapeHtml) [])) @ js ''>'' @ trim b @ js ''</'' @
        escapeHtml (str_of (Some (js ''div''))) @ js ''>'' \<and>
      trim b = b \<and>
      (b \<noteq> [] \<longrightarrow> \<not> isWhiteSpace (hd b) \<and> \<not> isWhiteSpace (last b))"
    by blast
  then obtain b' where b': "renderNodes escapeHtml voidElements body = Inr b'"
    and sh: "js ''<div>x</div>'' = js ''<'' @ escapeHtml (str_of (Some (js ''div''))) @
        trimEnd (concat (map (renderAttr escapeHtml) [])) @ js ''>'' @ trim b' @ js ''</'' @
        escapeHtml (str_of (Some (js ''div''))) @ js ''>''"
    and en: "b' \<noteq> [] \<longrightarrow> \<not> isWhiteSpace (hd b') \<and> \<not> isWhiteSpace (last b')"
    by blast
  from b b' have bx: "b' = js ''x''" by simp
  then have "b' \<noteq> []" by (simp add: js_def)
  with en have en': "\<not> isWhiteSpace (hd b') \<and> \<not> isWhiteSpace (last b')" by blast
  from sh have sh': "js ''<div>x</div>'' = js ''<'' @ escapeHtml (js ''div'') @ js ''>'' @
      trim b' @ js ''</'' @ escapeHtml (js ''div'') @ js ''>''"
    by (simp add: trimEnd_def)
  from b' sh' en' have 2: "\<exists>b. renderNodes escapeHtml voidElements body = Inr b \<and>
        js ''<div>x</div>'' = js ''<'' @ escapeHtml (js ''div'') @ js ''>'' @ trim b @ js ''</'' @
          escapeHtml (js ''div'') @ js ''>'' \<and>
        \<not> isWhiteSpace (hd b) \<and> \<not> isWhiteSpace (last b)"
    by blast
  from o 1 b tnode 2 show ?thesis
    unfolding outer_def el_def body_def by blast
qed

subsection \<open>JSON for HTML\<close>

lemma matches_at_agree: "matches_at eq (x @ z) q \<Longrightarrow> agree eq x q"
  by (induction eq x q rule: agree.induct) auto

lemma matches_at_long:
  "length q \<le> length y \<Longrightarrow> matches_at eq (y @ z) q = matches_at eq y q"
  by (induction eq y q rule: matches_at.induct) auto

lemma matches_at_short:
  "length y < length q \<Longrightarrow> matches_at eq (y @ w) q \<Longrightarrow> matches_at eq w (drop (length y) q)"
  by (induction eq y q rule: matches_at.induct) auto

lemma never_agreed_drop:
  "never_agreed eq r q \<Longrightarrow> n < length q \<Longrightarrow> \<not> agree eq r (drop n q)"
proof (induction q arbitrary: n)
  case Nil
  then show ?case by simp
next
  case (Cons p ps)
  then show ?case by (cases n) auto
qed

lemma blocked_match:
  assumes "never_agreed eq r q" and "length y < length q"
  shows "\<not> matches_at eq (y @ r @ z) q"
proof
  assume "matches_at eq (y @ r @ z) q"
  with assms(2) have "matches_at eq (r @ z) (drop (length y) q)"
    by (rule matches_at_short)
  then have "agree eq r (drop (length y) q)" by (rule matches_at_agree)
  with never_agreed_drop [OF assms] show False by simp
qed

lemma match_transfer:
  "never_agreed eq r q \<Longrightarrow> matches_at eq (y @ replace_all eq' p r s) q \<Longrightarrow>
   matches_at eq (y @ s) q"
proof (induction eq' p r s arbitrary: y rule: replace_all.induct)
  case (1 eq' p r)
  then show ?case by simp
next
  case (2 eq' p r c cs)
  note na = "2.prems"(1)
  show ?case
  proof (cases "p \<noteq> [] \<and> matches_at eq' (c # cs) p")
    case True
    with "2.prems"(2)
    have m: "matches_at eq (y @ r @ replace_all eq' p r (drop (length p) (c # cs))) q"
      by simp
    show ?thesis
    proof (cases "length y < length q")
      case True
      from blocked_match [OF na True] m show ?thesis by blast
    next
      case False
      then have l: "length q \<le> length y" by simp
      from m have "matches_at eq y q" by (simp only: matches_at_long [OF l])
      then show ?thesis by (simp only: matches_at_long [OF l])
    qed
  next
    case False
    with "2.prems"(2) have "matches_at eq ((y @ [c]) @ replace_all eq' p r cs) q" by simp
    from "2.IH"(2) [OF False na this] have "matches_at eq ((y @ [c]) @ cs) q" .
    then show ?thesis by simp
  qed
qed

lemma occurs_drop: "occurs eq (drop n s) q \<Longrightarrow> occurs eq s q"
proof (induction s arbitrary: n)
  case Nil
  then show ?case by simp
next
  case (Cons c cs)
  then show ?case by (cases n) auto
qed

lemma occurs_after_replacement:
  "never_agrees eq r q \<Longrightarrow> \<not> occurs eq z q \<Longrightarrow> \<not> occurs eq (r @ z) q"
proof (induction r)
  case Nil
  then show ?case by simp
next
  case (Cons c cs)
  from Cons.prems(1) have "\<not> agree eq (c # cs) q" by simp
  then have "\<not> matches_at eq ((c # cs) @ z) q" using matches_at_agree by blast
  with Cons show ?case by simp
qed

lemma replace_all_preserves:
  "never_agreed eq r q \<Longrightarrow> never_agrees eq r q \<Longrightarrow> q \<noteq> [] \<Longrightarrow>
   \<not> occurs eq s q \<Longrightarrow> \<not> occurs eq (replace_all eq' p r s) q"
proof (induction eq' p r s rule: replace_all.induct)
  case (1 eq' p r)
  then show ?case by simp
next
  case (2 eq' p r c cs)
  note na = "2.prems"(1) and nb = "2.prems"(2) and ne = "2.prems"(3) and no = "2.prems"(4)
  show ?case
  proof (cases "p \<noteq> [] \<and> matches_at eq' (c # cs) p")
    case True
    from no have "\<not> occurs eq (drop (length p) (c # cs)) q"
      using occurs_drop by blast
    from "2.IH"(1) [OF True na nb ne this]
    have "\<not> occurs eq (replace_all eq' p r (drop (length p) (c # cs))) q" .
    from occurs_after_replacement [OF nb this] True show ?thesis by simp
  next
    case False
    from no have nm: "\<not> matches_at eq (c # cs) q" and no': "\<not> occurs eq cs q" by simp_all
    from "2.IH"(2) [OF False na nb ne no']
    have 1: "\<not> occurs eq (replace_all eq' p r cs) q" .
    have 2: "\<not> matches_at eq (c # replace_all eq' p r cs) q"
    proof
      assume "matches_at eq (c # replace_all eq' p r cs) q"
      then have "matches_at eq ([c] @ replace_all eq' p r cs) q" by simp
      from match_transfer [OF na this] have "matches_at eq ([c] @ cs) q" .
      with nm show False by simp
    qed
    from 1 2 False show ?thesis by auto
  qed
qed

lemma replace_all_removes:
  "never_agreed eq r p \<Longrightarrow> never_agrees eq r p \<Longrightarrow> p \<noteq> [] \<Longrightarrow>
   \<not> occurs eq (replace_all eq p r s) p"
proof (induction eq p r s rule: replace_all.induct)
  case (1 eq p r)
  then show ?case by simp
next
  case (2 eq p r c cs)
  note na = "2.prems"(1) and nb = "2.prems"(2) and ne = "2.prems"(3)
  show ?case
  proof (cases "p \<noteq> [] \<and> matches_at eq (c # cs) p")
    case True
    from "2.IH"(1) [OF True na nb ne]
    have "\<not> occurs eq (replace_all eq p r (drop (length p) (c # cs))) p" .
    from occurs_after_replacement [OF nb this] True show ?thesis by simp
  next
    case False
    with ne have nm: "\<not> matches_at eq (c # cs) p" by simp
    from "2.IH"(2) [OF False na nb ne]
    have 1: "\<not> occurs eq (replace_all eq p r cs) p" .
    have 2: "\<not> matches_at eq (c # replace_all eq p r cs) p"
    proof
      assume "matches_at eq (c # replace_all eq p r cs) p"
      then have "matches_at eq ([c] @ replace_all eq p r cs) p" by simp
      from match_transfer [OF na this] have "matches_at eq ([c] @ cs) p" .
      with nm show False by simp
    qed
    from 1 2 False show ?thesis by auto
  qed
qed

lemma occurs_single: "occurs (=) s [c] = (c \<in> set s)"
  by (induction s) auto

lemma matches_at_ci: "matches_at (=) s p \<Longrightarrow> matches_at ci_eq s p"
  by (induction "(=) :: jschar \<Rightarrow> jschar \<Rightarrow> bool" s p rule: matches_at.induct)
    (auto simp: ci_eq_def)

lemma occurs_ci: "occurs (=) s p \<Longrightarrow> occurs ci_eq s p"
  by (induction s) (auto dest: matches_at_ci)

lemma scrub_comment:
  "\<not> occurs (=) (replace_all (=) (js ''<!--'') (js ''<'' @ backslash # js ''!--'') s) (js ''<!--'')"
  by (rule replace_all_removes) (simp_all add: js_def backslash_def)

lemma scrub_script:
  "\<not> occurs ci_eq (replace_all ci_eq (js ''</script>'') (js ''<'' @ backslash # js ''/script>'') s)
      (js ''</script>'')"
  by (rule replace_all_removes) (simp_all add: js_def backslash_def ci_eq_def ascii_upper_def)

lemma scrub_2028:
  "\<not> occurs (=) (replace_all (=) [0x2028] (backslash # js ''u2028'') s) [0x2028]"
  by (rule replace_all_removes) (simp_all add: js_def backslash_def)

lemma scrub_2029:
  "\<not> occurs (=) (replace_all (=) [0x2029] (backslash # js ''u2029'') s) [0x2029]"
  by (rule replace_all_removes) (simp_all add: js_def backslash_def)

lemma keep_comment_script:
  "\<not> occurs (=) s (js ''<!--'') \<Longrightarrow>
   \<not> occurs (=) (replace_all eq' p (js ''<'' @ backslash # js ''/script>'') s) (js ''<!--'')"
  by (rule replace_all_preserves) (simp_all add: js_def backslash_def)

lemma keep_comment_2028:
  "\<not> occurs (=) s (js ''<!--'') \<Longrightarrow>
   \<not> occurs (=) (replace_all eq' p (backslash # js ''u2028'') s) (js ''<!--'')"
  by (rule replace_all_preserves) (simp_all add: js_def backslash_def)

lemma keep_comment_2029:
  "\<not> occurs (=) s (js ''<!--'') \<Longrightarrow>
   \<not> occurs (=) (replace_all eq' p (backslash # js ''u2029'') s) (js ''<!--'')"
  by (rule replace_all_preserves) (simp_all add: js_def backslash_def)

lemma keep_script_2028:
  "\<not> occurs ci_eq s (js ''</script>'') \<Longrightarrow>
   \<not> occurs ci_eq (replace_all eq' p (backslash # js ''u2028'') s) (js ''</script>'')"
  by (rule replace_all_preserves) (simp_all add: js_def backslash_def ci_eq_def ascii_upper_def)

lemma keep_script_2029:
  "\<not> occurs ci_eq s (js ''</script>'') \<Longrightarrow>
   \<not> occurs ci_eq (replace_all eq' p (backslash # js ''u2029'') s) (js ''</script>'')"
  by (rule replace_all_preserves) (simp_all add: js_def backslash_def ci_eq_def ascii_upper_def)

lemma keep_2028_2029:
  "\<not> occurs (=) s [0x2028] \<Longrightarrow>
   \<not> occurs (=) (replace_all eq' p (backslash # js ''u2029'') s) [0x2028]"
  by (rule replace_all_preserves) (simp_all add: js_def backslash_def)

lemma script_safe:
  assumes "out = replace_all (=) [0x2029] (backslash # js ''u2029'')
     (replace_all (=) [0x2028] (backslash # js ''u2028'')
       (replace_all ci_eq (js ''</script>'') (js ''<'' @ backslash # js ''/script>'')
         (replace_all (=) (js ''<!--'') (js ''<'' @ backslash # js ''!--'') s)))"
  shows "\<not> occurs ci_eq out (js ''</script>'') \<and> \<not> occurs (=) out (js ''<!--'') \<and>
         0x2028 \<notin> set out \<and> 0x2029 \<notin> set out"
proof -
  have 1: "\<not> occurs (=) out (js ''<!--'')"
    unfolding assms
    by (intro keep_comment_2029 keep_comment_2028 keep_comment_script scrub_comment)
  have 2: "\<not> occurs ci_eq out (js ''</script>'')"
    unfolding assms
    by (intro keep_script_2029 keep_script_2028 scrub_script)
  have 3: "\<not> occurs (=) out [0x2028]"
    unfolding assms by (intro keep_2028_2029 scrub_2028)
  have 4: "\<not> occurs (=) out [0x2029]"
    unfolding assms by (rule scrub_2029)
  from 1 2 3 4 show ?thesis by (simp add: occurs_single)
qed

lemma JSON_stringify_defined: "data \<noteq> JUndefined \<Longrightarrow> \<exists>s. JSON_stringify data = Some s"
  by (cases data) simp_all

text \<open>
  C6. \<open>jsonForHtml(undefined)\<close> is the string \<open>null\<close>. For every value, \<open>jsonForHtml\<close>
  returns a string that contains no \<open></script>\<close> (in any letter case), no \<open><!--\<close> and
  neither of the characters U+2028 and U+2029. The four replacements establish this
  for any text that \<open>JSON.stringify\<close> may return.
\<close>

theorem jsonForHtml_safe:
  "jsonForHtml JUndefined = Inr (js ''null'') \<and>
   (\<forall>data. \<exists>out. jsonForHtml data = Inr out) \<and>
   (\<forall>data out. jsonForHtml data = Inr out \<longrightarrow>
      \<not> str_includes out (js ''</script>'') \<and> \<not> occurs ci_eq out (js ''</script>'') \<and>
      \<not> str_includes out (js ''<!--'') \<and> 0x2028 \<notin> set out \<and> 0x2029 \<notin> set out)"
proof -
  have u: "jsonForHtml JUndefined = Inr (js ''null'')"
    by (simp add: jsonForHtml_def)
  have total: "\<exists>out. jsonForHtml data = Inr out" for data
  proof (cases "data = JUndefined")
    case True
    with u show ?thesis by simp
  next
    case False
    then obtain s where "JSON_stringify data = Some s"
      using JSON_stringify_defined by blast
    with False show ?thesis by (simp add: jsonForHtml_def Let_def)
  qed
  have clean: "\<not> occurs ci_eq out (js ''</script>'') \<and> \<not> occurs (=) out (js ''<!--'') \<and>
         0x2028 \<notin> set out \<and> 0x2029 \<notin> set out"
    if r: "jsonForHtml data = Inr out" for data out
  proof (cases "data = JUndefined")
    case True
    with r u have "out = js ''null''" by simp
    then show ?thesis by (simp add: js_def ci_eq_def ascii_upper_def)
  next
    case False
    then obtain s where s: "JSON_stringify data = Some s"
      using JSON_stringify_defined by blast
    with False r have "out = replace_all (=) [0x2029] (backslash # js ''u2029'')
     (replace_all (=) [0x2028] (backslash # js ''u2028'')
       (replace_all ci_eq (js ''</script>'') (js ''<'' @ backslash # js ''/script>'')
         (replace_all (=) (js ''<!--'') (js ''<'' @ backslash # js ''!--'') s)))"
      by (simp add: jsonForHtml_def Let_def)
    then show ?thesis by (rule script_safe)
  qed
  have all: "\<not> str_includes out (js ''</script>'') \<and> \<not> occurs ci_eq out (js ''</script>'') \<and>
      \<not> str_includes out (js ''<!--'') \<and> 0x2028 \<notin> set out \<and> 0x2029 \<notin> set out"
    if r: "jsonForHtml data = Inr out" for data out
    using clean [OF r] occurs_ci [of out "js ''</script>''"]
    by (auto simp: str_includes_def)
  from u total all show ?thesis by blast
qed

theorem jsonForHtml_safe_witness:
  "jsonForHtml (JStr (js ''</script>'')) =
     Inr (dquote # js ''<'' @ backslash # js ''/script>'' @ [dquote]) \<and>
   \<not> str_includes (dquote # js ''<'' @ backslash # js ''/script>'' @ [dquote]) (js ''</script>'') \<and>
   \<not> str_includes (dquote # js ''<'' @ backslash # js ''/script>'' @ [dquote]) (js ''<!--'') \<and>
   0x2028 \<notin> set (dquote # js ''<'' @ backslash # js ''/script>'' @ [dquote]) \<and>
   0x2029 \<notin> set (dquote # js ''<'' @ backslash # js ''/script>'' @ [dquote])"
proof -
  define out where "out = dquote # js ''<'' @ backslash # js ''/script>'' @ [dquote]"
  define data where "data = JStr (js ''</script>'')"
  have ev: "jsonForHtml data = Inr out"
    by (simp add: data_def out_def jsonForHtml_def QuoteJSONString_def quoteUnit_def js_def
        dquote_def backslash_def ci_eq_def ascii_upper_def isHighSurrogate_def
        isLowSurrogate_def Let_def)
  from jsonForHtml_safe ev have "\<not> str_includes out (js ''</script>'') \<and>
      \<not> occurs ci_eq out (js ''</script>'') \<and>
      \<not> str_includes out (js ''<!--'') \<and> 0x2028 \<notin> set out \<and> 0x2029 \<notin> set out"
    by blast
  with ev show ?thesis unfolding out_def data_def by blast
qed

subsection \<open>Loader and environment caches\<close>













































end
